theory Spec2Isabelle
  imports Complex_Main
begin

section \<open>The editor screen of xpatch\_demo\_editor\<close>

text \<open>
  A shallow embedding of \<^verbatim>\<open>src/routes/editor/[id]/+page.svelte\<close>. The component is
  single-threaded and event-driven: a handler runs to its first \<^verbatim>\<open>await\<close>, and the rest
  of it runs when the awaited call of \<^verbatim>\<open>src/lib/api.ts\<close> settles. The model is a state
  record and one function per handler (named as in the source); an \<^verbatim>\<open>async\<close> function is
  cut at its \<^verbatim>\<open>await\<close>s into the part that issues the call and the parts that resume.
  The JavaScript runtime is part of the state: the table of armed timers, the pool of
  pending calls, and whether the window listeners are attached.
\<close>

subsection \<open>Data\<close>

text \<open>\<^verbatim>\<open>DocumentStats\<close> of api.ts. The three counters are non-negative integers; the
  ratio is a JavaScript number, and modelled as a real.\<close>

record document_stats =
  total_patches :: nat
  total_delta_bytes :: nat
  total_uncompressed_bytes :: nat
  compression_ratio :: real

datatype edit_mode = Write | Preview

text \<open>The closures handed to \<^verbatim>\<open>setTimeout\<close> and \<^verbatim>\<open>setInterval\<close>: the save callback of
  \<^verbatim>\<open>handleContentChange\<close>, the delay callback of \<^verbatim>\<open>handleKeyDown\<close> and the repetition
  callback it installs; the last two capture \<^verbatim>\<open>direction\<close>.\<close>

datatype callback = SaveWindow | HoldDelay int | HoldRepeat int

datatype timer = Timer (tid: nat) (cb: callback) (delay: nat) (repeats: bool)

text \<open>The second argument of \<^verbatim>\<open>loadDocumentAtTimestamp\<close>: an element of \<^verbatim>\<open>timestamps\<close>,
  \<^verbatim>\<open>undefined\<close> when the index read is out of range, or \<^verbatim>\<open>Date.now()\<close>.\<close>

datatype ts_arg = At int | Undefined | DateNow

text \<open>The calls of api.ts the component makes, with their arguments.\<close>

datatype ext_call =
    CreatePatch string string
  | GetPatchTimestamps string
  | GetDocumentStats string
  | LoadDocumentAtTimestamp string ts_arg

text \<open>Where a pending call resumes: the three \<^verbatim>\<open>await\<close>s of \<^verbatim>\<open>onMount\<close>, the three of
  \<^verbatim>\<open>performSave\<close>, and the one of \<^verbatim>\<open>handleTimeTravelChange\<close>.\<close>

datatype task =
    MountTimestamps | MountStats | MountLoad
  | SaveCreate | SaveTimestamps | SaveStats
  | TravelLoad

text \<open>How a promise settles: rejected, or fulfilled with a string, a list of timestamps
  or the statistics.\<close>

datatype outcome =
    Rejected
  | Str string
  | Timestamps "int list"
  | Stats document_stats

text \<open>
  The component's variables, then the runtime's. \<^verbatim>\<open>timeTravelIndex\<close> is a \<^verbatim>\<open>number[]\<close>
  that every write of the source sets to a one-element array \<^verbatim>\<open>[v]\<close> and every read
  takes at \<^verbatim>\<open>[0]\<close>; the model keeps the element. \<^verbatim>\<open>docUuid\<close> is the route parameter.
  A timer handle is a positive integer, so the truthiness tests \<^verbatim>\<open>if (keyHoldInterval)\<close>
  of the source are tests against \<^verbatim>\<open>null\<close>. In \<open>inflight\<close> a pending call carries the
  identity of its promise, which no handler reads; \<open>calls\<close> records every call issued.
  The effects of the component exist while it is \<open>mounted\<close>.
\<close>

record state =
  docUuid :: string
  content :: string
  mode :: edit_mode
  timestamps :: "int list"
  timeTravelIndex :: int
  isTimeTravel :: bool
  timeTravelContent :: string
  stats :: "document_stats option"
  saveTimeout :: "nat option"
  isPopoverOpen :: bool
  keyHoldInterval :: "nat option"
  keyHoldTimeout :: "nat option"
  timers :: "timer list"
  nextTimer :: nat
  inflight :: "(nat \<times> task) list"
  nextReq :: nat
  listening :: bool
  mounted :: bool
  calls :: "ext_call list"

definition SAVE_THROTTLE_MS :: nat where
  "SAVE_THROTTLE_MS = 500"

definition init :: "string \<Rightarrow> state" where
  "init doc = \<lparr> docUuid = doc, content = [], mode = Write, timestamps = [],
     timeTravelIndex = 0, isTimeTravel = False, timeTravelContent = [], stats = None,
     saveTimeout = None, isPopoverOpen = False, keyHoldInterval = None,
     keyHoldTimeout = None, timers = [], nextTimer = 1, inflight = [], nextReq = 0,
     listening = False, mounted = False, calls = [] \<rparr>"

subsection \<open>The runtime: timers and pending calls\<close>

text \<open>\<^verbatim>\<open>setTimeout(f, ms)\<close> and \<^verbatim>\<open>setInterval(f, ms)\<close> arm a timer under a fresh handle,
  which is \<open>nextTimer\<close> of the state before.\<close>

definition setTimeout :: "callback \<Rightarrow> nat \<Rightarrow> state \<Rightarrow> state" where
  "setTimeout f ms s =
     s\<lparr> timers := timers s @ [Timer (nextTimer s) f ms False], nextTimer := Suc (nextTimer s) \<rparr>"

definition setInterval :: "callback \<Rightarrow> nat \<Rightarrow> state \<Rightarrow> state" where
  "setInterval f ms s =
     s\<lparr> timers := timers s @ [Timer (nextTimer s) f ms True], nextTimer := Suc (nextTimer s) \<rparr>"

text \<open>\<^verbatim>\<open>clearTimeout\<close> and \<^verbatim>\<open>clearInterval\<close> share one pool of handles; clearing a handle
  that is not armed does nothing.\<close>

definition clearTimer :: "nat \<Rightarrow> state \<Rightarrow> state" where
  "clearTimer h s = s\<lparr> timers := filter (\<lambda>t. tid t \<noteq> h) (timers s) \<rparr>"

text \<open>Calling a function of api.ts under \<^verbatim>\<open>await\<close>: the call goes out and the rest of the
  handler waits in the pool.\<close>

definition await :: "ext_call \<Rightarrow> task \<Rightarrow> state \<Rightarrow> state" where
  "await c k s =
     s\<lparr> calls := calls s @ [c], inflight := inflight s @ [(nextReq s, k)],
        nextReq := Suc (nextReq s) \<rparr>"

definition settled :: "nat \<Rightarrow> state \<Rightarrow> state" where
  "settled r s = s\<lparr> inflight := filter (\<lambda>p. fst p \<noteq> r) (inflight s) \<rparr>"

subsection \<open>Saving: \<^verbatim>\<open>performSave\<close> and \<^verbatim>\<open>handleContentChange\<close>\<close>

text \<open>\<^verbatim>\<open>performSave\<close> up to its first \<^verbatim>\<open>await\<close>. \<open>content\<close> is a string, never
  \<^verbatim>\<open>undefined\<close>, so the guard of the source is true.\<close>

definition performSave :: "state \<Rightarrow> state" where
  "performSave s = await (CreatePatch (docUuid s) (content s)) SaveCreate s"

text \<open>After \<^verbatim>\<open>createPatch\<close> settles: the \<^verbatim>\<open>try\<close>/\<^verbatim>\<open>catch\<close> drops a rejection and the
  result is not used, so both ways go on to \<^verbatim>\<open>loadTimestamps\<close>.\<close>

definition performSave_afterCreate :: "state \<Rightarrow> state" where
  "performSave_afterCreate s = await (GetPatchTimestamps (docUuid s)) SaveTimestamps s"

text \<open>After \<^verbatim>\<open>getPatchTimestamps\<close> fulfils: \<^verbatim>\<open>timestamps\<close> is replaced, then
  \<^verbatim>\<open>loadStats\<close>.\<close>

definition performSave_afterTimestamps :: "int list \<Rightarrow> state \<Rightarrow> state" where
  "performSave_afterTimestamps ts s =
     await (GetDocumentStats (docUuid s)) SaveStats (s\<lparr> timestamps := ts \<rparr>)"

text \<open>After \<^verbatim>\<open>getDocumentStats\<close> fulfils: \<^verbatim>\<open>stats\<close> is replaced, the index follows the
  newest version unless time travel is on, and the timer callback that awaited
  \<^verbatim>\<open>performSave\<close> resets \<^verbatim>\<open>saveTimeout\<close>.\<close>

definition performSave_afterStats :: "document_stats \<Rightarrow> state \<Rightarrow> state" where
  "performSave_afterStats st s =
     (let s1 = s\<lparr> stats := Some st \<rparr>;
          s2 = (if \<not> isTimeTravel s1
                then s1\<lparr> timeTravelIndex := int (length (timestamps s1)) - 1 \<rparr>
                else s1)
      in s2\<lparr> saveTimeout := None \<rparr>)"

definition handleContentChange :: "state \<Rightarrow> state" where
  "handleContentChange s =
     (if saveTimeout s \<noteq> None then s
      else (setTimeout SaveWindow SAVE_THROTTLE_MS s)\<lparr> saveTimeout := Some (nextTimer s) \<rparr>)"

subsection \<open>Navigation\<close>

text \<open>\<^verbatim>\<open>timestamps[value[0]]\<close>: \<^verbatim>\<open>undefined\<close> outside the array.\<close>

definition timestamp_at :: "int list \<Rightarrow> int \<Rightarrow> ts_arg" where
  "timestamp_at ts i = (if 0 \<le> i \<and> i < int (length ts) then At (ts ! nat i) else Undefined)"

definition handleTimeTravelChange :: "int \<Rightarrow> state \<Rightarrow> state" where
  "handleTimeTravelChange v s =
     (let s1 = s\<lparr> timeTravelIndex := v, isTimeTravel := True \<rparr>
      in await (LoadDocumentAtTimestamp (docUuid s1) (timestamp_at (timestamps s1) v))
           TravelLoad s1)"

text \<open>After \<^verbatim>\<open>loadDocumentAtTimestamp\<close> fulfils, in \<^verbatim>\<open>handleTimeTravelChange\<close>.\<close>

definition handleTimeTravelChange_afterLoad :: "string \<Rightarrow> state \<Rightarrow> state" where
  "handleTimeTravelChange_afterLoad r s = s\<lparr> timeTravelContent := r \<rparr>"

definition jumpToVersion :: "int \<Rightarrow> state \<Rightarrow> state" where
  "jumpToVersion i s =
     (if i < 0 \<or> i \<ge> int (length (timestamps s)) then s else handleTimeTravelChange i s)"

definition stepVersion :: "int \<Rightarrow> state \<Rightarrow> state" where
  "stepVersion d s =
     (let newIndex = timeTravelIndex s + d
      in if newIndex \<ge> 0 \<and> newIndex < int (length (timestamps s))
         then jumpToVersion newIndex s else s)"

definition exitTimeTravel :: "state \<Rightarrow> state" where
  "exitTimeTravel s = s\<lparr> isTimeTravel := False, timeTravelContent := [] \<rparr>"

subsection \<open>Mounting and tearing down\<close>

text \<open>\<^verbatim>\<open>onMount\<close>, cut at its three \<^verbatim>\<open>await\<close>s.\<close>

definition onMount :: "state \<Rightarrow> state" where
  "onMount s = await (GetPatchTimestamps (docUuid s)) MountTimestamps s"

definition onMount_afterTimestamps :: "int list \<Rightarrow> state \<Rightarrow> state" where
  "onMount_afterTimestamps ts s =
     await (GetDocumentStats (docUuid s)) MountStats (s\<lparr> timestamps := ts \<rparr>)"

definition onMount_afterStats :: "document_stats \<Rightarrow> state \<Rightarrow> state" where
  "onMount_afterStats st s =
     (let s1 = s\<lparr> stats := Some st \<rparr>
      in if length (timestamps s1) > 0
         then await (LoadDocumentAtTimestamp (docUuid s1) DateNow) MountLoad s1
         else s1)"

definition onMount_afterLoad :: "string \<Rightarrow> state \<Rightarrow> state" where
  "onMount_afterLoad latest s =
     s\<lparr> content := latest, timeTravelIndex := int (length (timestamps s)) - 1 \<rparr>"

definition clearIfSet :: "nat option \<Rightarrow> state \<Rightarrow> state" where
  "clearIfSet h s = (case h of None \<Rightarrow> s | Some n \<Rightarrow> clearTimer n s)"

definition onDestroy :: "state \<Rightarrow> state" where
  "onDestroy s =
     clearIfSet (keyHoldTimeout s) (clearIfSet (keyHoldInterval s) (clearIfSet (saveTimeout s) s))"

subsection \<open>Key repeat\<close>

text \<open>The block both key handlers and the popover effect share: each handle that is set
  is cleared and its variable reset to \<^verbatim>\<open>null\<close>.\<close>

definition clearKeyHold :: "state \<Rightarrow> state" where
  "clearKeyHold s =
     (let s1 = (case keyHoldInterval s of
                  None \<Rightarrow> s
                | Some h \<Rightarrow> (clearTimer h s)\<lparr> keyHoldInterval := None \<rparr>)
      in case keyHoldTimeout s1 of
           None \<Rightarrow> s1
         | Some h \<Rightarrow> (clearTimer h s1)\<lparr> keyHoldTimeout := None \<rparr>)"

definition isArrow :: "string \<Rightarrow> bool" where
  "isArrow k = (k = ''ArrowLeft'' \<or> k = ''ArrowRight'')"

definition direction :: "string \<Rightarrow> int" where
  "direction k = (if k = ''ArrowLeft'' then - 1 else 1)"

definition handleKeyDown :: "string \<Rightarrow> state \<Rightarrow> state" where
  "handleKeyDown k s =
     (if \<not> isPopoverOpen s then s
      else if isArrow k then
        (let s1 = clearKeyHold s;
             s2 = stepVersion (direction k) s1
         in (setTimeout (HoldDelay (direction k)) 300 s2)\<lparr> keyHoldTimeout := Some (nextTimer s2) \<rparr>)
      else s)"

definition handleKeyUp :: "string \<Rightarrow> state \<Rightarrow> state" where
  "handleKeyUp k s = (if isArrow k then clearKeyHold s else s)"

text \<open>What a timer does when it fires.\<close>

fun runCallback :: "callback \<Rightarrow> state \<Rightarrow> state" where
  "runCallback SaveWindow s = performSave s"
| "runCallback (HoldDelay d) s =
     (setInterval (HoldRepeat d) 50 s)\<lparr> keyHoldInterval := Some (nextTimer s) \<rparr>"
| "runCallback (HoldRepeat d) s = stepVersion d s"

subsection \<open>The two effects\<close>

text \<open>The first \<^verbatim>\<open>$effect\<close>: the edit notification.\<close>

definition contentEffect :: "state \<Rightarrow> state" where
  "contentEffect s = (if \<not> isTimeTravel s then handleContentChange s else s)"

text \<open>The second \<^verbatim>\<open>$effect\<close>: the key listeners follow the popover, and closing it
  clears the key-repeat timers.\<close>

definition popoverEffect :: "state \<Rightarrow> state" where
  "popoverEffect s =
     (if isPopoverOpen s then s\<lparr> listening := True \<rparr>
      else clearKeyHold (s\<lparr> listening := False \<rparr>))"

text \<open>An effect of a mounted component runs again when a variable it read on its last
  run has changed. The first effect reads \<^verbatim>\<open>isTimeTravel\<close>, and \<^verbatim>\<open>content\<close> only when
  \<^verbatim>\<open>isTimeTravel\<close> was false.\<close>

definition react :: "state \<Rightarrow> state \<Rightarrow> state" where
  "react old new =
     (if mounted new
         \<and> (isTimeTravel old \<noteq> isTimeTravel new
              \<or> (\<not> isTimeTravel old \<and> content old \<noteq> content new))
      then contentEffect new else new)"

subsection \<open>Events\<close>

text \<open>
  What can happen to the component: it is mounted or destroyed; the user types in the
  text area, picks a mode, opens or closes the popover, drags the slider, presses one of
  the four buttons (first and last are \<open>JumpClick\<close>, previous and next are \<open>StepClick\<close>)
  or the return button, presses or releases a key; a timer fires; a pending call settles.
\<close>

datatype event =
    Mount
  | Destroy
  | Edit string
  | SetMode edit_mode
  | SetPopover bool
  | SliderChange int
  | JumpClick int
  | StepClick int
  | ExitClick
  | KeyDown string
  | KeyUp string
  | Fire nat
  | Settle nat outcome

text \<open>A timer that fires runs its callback; a timeout is spent by firing, an interval
  stays armed. A handle that is not armed fires nothing.\<close>

definition fire :: "nat \<Rightarrow> state \<Rightarrow> state" where
  "fire h s =
     (case find (\<lambda>t. tid t = h) (timers s) of
        None \<Rightarrow> s
      | Some t \<Rightarrow> runCallback (cb t) (if repeats t then s else clearTimer h s))"

text \<open>A call that settles resumes its handler. A rejection ends the handler, but for
  \<^verbatim>\<open>createPatch\<close>, whose rejection \<^verbatim>\<open>performSave\<close> catches. A result of another type
  than api.ts declares is not an event of the program.\<close>

fun resume :: "task \<Rightarrow> outcome \<Rightarrow> state \<Rightarrow> state" where
  "resume SaveCreate out s = performSave_afterCreate s"
| "resume SaveTimestamps (Timestamps ts) s = performSave_afterTimestamps ts s"
| "resume SaveStats (Stats st) s = performSave_afterStats st s"
| "resume MountTimestamps (Timestamps ts) s = onMount_afterTimestamps ts s"
| "resume MountStats (Stats st) s = onMount_afterStats st s"
| "resume MountLoad (Str r) s = onMount_afterLoad r s"
| "resume TravelLoad (Str r) s = handleTimeTravelChange_afterLoad r s"
| "resume k out s = s"

definition settle :: "nat \<Rightarrow> outcome \<Rightarrow> state \<Rightarrow> state" where
  "settle r out s =
     (case map_of (inflight s) r of
        None \<Rightarrow> s
      | Some k \<Rightarrow> resume k out (settled r s))"

text \<open>The handler of an event. Mounting runs \<^verbatim>\<open>onMount\<close> and then each effect for the
  first time; destroying runs \<^verbatim>\<open>onDestroy\<close> and detaches the listeners. For the other
  events this is the handler without the effects.\<close>

fun handle :: "event \<Rightarrow> state \<Rightarrow> state" where
  "handle Mount s = popoverEffect (contentEffect (onMount (s\<lparr> mounted := True \<rparr>)))"
| "handle Destroy s = (onDestroy s)\<lparr> listening := False, mounted := False \<rparr>"
| "handle (Edit c) s = s\<lparr> content := c \<rparr>"
| "handle (SetMode m) s = s\<lparr> mode := m \<rparr>"
| "handle (SetPopover b) s =
     (if b = isPopoverOpen s then s else popoverEffect (s\<lparr> isPopoverOpen := b \<rparr>))"
| "handle (SliderChange v) s = handleTimeTravelChange v s"
| "handle (JumpClick i) s = jumpToVersion i s"
| "handle (StepClick d) s = stepVersion d s"
| "handle ExitClick s = exitTimeTravel s"
| "handle (KeyDown k) s = (if listening s then handleKeyDown k s else s)"
| "handle (KeyUp k) s = (if listening s then handleKeyUp k s else s)"
| "handle (Fire h) s = fire h s"
| "handle (Settle r out) s = settle r out s"

text \<open>One event: its handler, then the first effect if what it read has changed.\<close>

definition step :: "state \<Rightarrow> event \<Rightarrow> state" where
  "step s e = (let s' = handle e s in react s s')"

definition run :: "state \<Rightarrow> event list \<Rightarrow> state" where
  "run s es = foldl step s es"

text \<open>What the page shows in its main area.\<close>

datatype shown = TimeTravelView | WriteView | PreviewView

definition view :: "state \<Rightarrow> shown" where
  "view s = (if isTimeTravel s then TimeTravelView
             else if mode s = Write then WriteView else PreviewView)"

subsection \<open>The statistics header\<close>

text \<open>
  \<^verbatim>\<open>formatBytes\<close> and the spans of the header. A JavaScript number is a double; the model
  takes a byte count in \<open>nat\<close> and computes exactly: \<open>logFloor\<close> is
  \<^verbatim>\<open>Math.floor(Math.log(bytes) / Math.log(1024))\<close>, \<open>mathRound\<close> is \<^verbatim>\<open>Math.round\<close> (a half
  rounds up), and a number with at most two decimals prints without trailing zeros.
  \<^verbatim>\<open>sizes[i]\<close> is \<^verbatim>\<open>undefined\<close> from index 3 on, which the concatenation prints as such.
  The exact logarithm is the one the doubles give for byte counts below \<open>2 ^ 50 - 3\<close>.
  From there on the two differ: just below \<open>2 ^ 50\<close> the quotient of the rounded
  logarithms is already 5 where \<open>logFloor\<close> is 4, so the model is the code only below
  that bound.
\<close>

definition digit :: "nat \<Rightarrow> char" where
  "digit n = ''0123456789'' ! n"

fun numberToString :: "nat \<Rightarrow> string" where
  "numberToString n =
     (if n < 10 then [digit n] else numberToString (n div 10) @ [digit (n mod 10)])"

declare numberToString.simps [simp del]

definition mathRound :: "real \<Rightarrow> int" where
  "mathRound x = \<lfloor>x + 1 / 2\<rfloor>"

fun logFloor :: "nat \<Rightarrow> nat" where
  "logFloor n = (if n < 1024 then 0 else Suc (logFloor (n div 1024)))"

declare logFloor.simps [simp del]

definition sizes :: "nat \<Rightarrow> string" where
  "sizes i = (if i < 3 then [''B'', ''KB'', ''MB''] ! i else ''undefined'')"

definition hundredthsToString :: "nat \<Rightarrow> string" where
  "hundredthsToString h =
     (let w = h div 100; f = h mod 100
      in if f = 0 then numberToString w
         else if f mod 10 = 0 then numberToString w @ ''.'' @ [digit (f div 10)]
         else numberToString w @ ''.'' @ [digit (f div 10), digit (f mod 10)])"

definition formatBytes :: "nat \<Rightarrow> string" where
  "formatBytes bytes =
     (if bytes = 0 then ''0 B''
      else let i = logFloor bytes
           in hundredthsToString (nat (mathRound (of_nat bytes / 1024 ^ i * 100)))
                @ '' '' @ sizes i)"

text \<open>\<^verbatim>\<open>x.toFixed(1)\<close>: the nearest tenth, the larger one on a tie.\<close>

definition toFixed1 :: "real \<Rightarrow> string" where
  "toFixed1 x =
     (let n = nat \<lfloor>\<bar>x\<bar> * 10 + 1 / 2\<rfloor>
      in (if x < 0 then ''-'' else []) @ numberToString (n div 10) @ ''.'' @ [digit (n mod 10)])"

text \<open>\<^verbatim>\<open>Math.round(stats.total_delta_bytes / stats.total_patches)\<close>, read where
  \<^verbatim>\<open>total_patches > 0\<close>.\<close>

definition averageBytes :: "document_stats \<Rightarrow> nat" where
  "averageBytes st =
     nat (mathRound (of_nat (total_delta_bytes st) / of_nat (total_patches st)))"

text \<open>The five spans of the header, in order, each without the bullet that may lead it;
  nothing is shown without statistics or without a patch.\<close>

definition statsHeader :: "document_stats option \<Rightarrow> string list option" where
  "statsHeader so =
     (case so of
        None \<Rightarrow> None
      | Some st \<Rightarrow>
          if total_patches st > 0
          then Some
            [ formatBytes (total_delta_bytes st),
              formatBytes (total_uncompressed_bytes st),
              ''('' @ toFixed1 (compression_ratio st) @ ''x compression)'',
              numberToString (total_patches st) @ '' ''
                @ (if total_patches st = 1 then ''patch'' else ''patches''),
              ''avg '' @ formatBytes (averageBytes st) @ ''/patch'' ]
          else None)"

subsection \<open>Invariants of the runtime\<close>

text \<open>Handles are never reused: the armed timers have distinct handles, all below the
  next one; the pending calls have identities below the next one.\<close>

definition freshTimers :: "state \<Rightarrow> bool" where
  "freshTimers s =
     (distinct (map tid (timers s)) \<and> list_all (\<lambda>t. tid t < nextTimer s) (timers s))"


text \<open>The armed key-repeat timers, and the three phases of key repeat: none armed; the
  delay timeout armed, its handle in \<^verbatim>\<open>keyHoldTimeout\<close>; the repetition interval armed, its
  handle in \<^verbatim>\<open>keyHoldInterval\<close>.\<close>

definition holdTimers :: "state \<Rightarrow> timer list" where
  "holdTimers s = filter (\<lambda>t. cb t \<noteq> SaveWindow) (timers s)"

definition holdOk :: "state \<Rightarrow> bool" where
  "holdOk s =
     (freshTimers s \<and>
      (case holdTimers s of
         [] \<Rightarrow> True
       | [t] \<Rightarrow>
           (case cb t of
              SaveWindow \<Rightarrow> False
            | HoldDelay d \<Rightarrow> keyHoldTimeout s = Some (tid t) \<and> delay t = 300 \<and> \<not> repeats t
            | HoldRepeat d \<Rightarrow> keyHoldInterval s = Some (tid t) \<and> delay t = 50 \<and> repeats t)
       | t # u # ts \<Rightarrow> False))"

text \<open>Two states with the same timers and the same key-repeat variables.\<close>

definition sameKeyHold :: "state \<Rightarrow> state \<Rightarrow> bool" where
  "sameKeyHold s s' =
     (timers s' = timers s \<and> nextTimer s' = nextTimer s
      \<and> keyHoldTimeout s' = keyHoldTimeout s \<and> keyHoldInterval s' = keyHoldInterval s)"

text \<open>What navigation acts on: the position, the time-travel flag and content, and the
  calls issued and pending.\<close>

definition nav :: "state \<Rightarrow> (int \<times> bool \<times> string) \<times> ext_call list \<times> (nat \<times> task) list" where
  "nav s = ((timeTravelIndex s, isTimeTravel s, timeTravelContent s), calls s, inflight s)"

text \<open>The armed delay timeouts and the armed repetition intervals, counted apart.\<close>

definition delayTimers :: "state \<Rightarrow> timer list" where
  "delayTimers s = filter (\<lambda>t. case cb t of HoldDelay d \<Rightarrow> True | _ \<Rightarrow> False) (timers s)"

definition repeatTimers :: "state \<Rightarrow> timer list" where
  "repeatTimers s = filter (\<lambda>t. case cb t of HoldRepeat d \<Rightarrow> True | _ \<Rightarrow> False) (timers s)"

subsection \<open>States to run the theorems on\<close>

definition statsOf :: "nat \<Rightarrow> document_stats" where
  "statsOf n = \<lparr> total_patches = n, total_delta_bytes = 10 * n,
     total_uncompressed_bytes = 1000 * n, compression_ratio = 100 \<rparr>"

definition sampleStats :: document_stats where
  "sampleStats = statsOf 4"

text \<open>The editor opened on a document of five versions: mounted, the three calls of
  \<^verbatim>\<open>onMount\<close> fulfilled. The first run of the edit effect has opened a save window.\<close>

definition opened :: state where
  "opened = run (init ''doc'')
     [Mount, Settle 0 (Timestamps [10, 20, 30, 40, 50]), Settle 1 (Stats (statsOf 5)),
      Settle 2 (Str ''five'')]"

text \<open>Then the window fires and \<^verbatim>\<open>createPatch\<close> is pending.\<close>

definition saving :: state where
  "saving = step opened (Fire 1)"

text \<open>Then the save and its refresh complete: six versions, no window pending.\<close>

definition saved :: state where
  "saved = run saving
     [Settle 3 (Str ''patch''), Settle 4 (Timestamps [10, 20, 30, 40, 50, 60]),
      Settle 5 (Stats (statsOf 6))]"

text \<open>From \<open>opened\<close>: the user jumps to version 2, whose content arrives, and the pending
  window fires, so that \<^verbatim>\<open>createPatch\<close> is pending while time travel is on.\<close>

definition travelling :: state where
  "travelling = run opened [JumpClick 2, Settle 3 (Str ''three''), Fire 1]"

text \<open>Then that save and its refresh complete, still in time travel: six versions.\<close>

definition travelled :: state where
  "travelled = run travelling
     [Settle 4 (Str ''patch''), Settle 5 (Timestamps [10, 20, 30, 40, 50, 60]),
      Settle 6 (Stats (statsOf 6))]"

text \<open>From \<open>opened\<close>: the popover is opened; then the left arrow is pressed and held
  until the delay timer has fired.\<close>

definition browsing :: state where
  "browsing = step opened (SetPopover True)"

definition repeating :: state where
  "repeating = run browsing [KeyDown ''ArrowLeft'', Fire 2]"

text \<open>Then two ticks of the interval, and the key is released: version 1 of five is
  shown.\<close>

definition rewound :: state where
  "rewound = run repeating [Fire 3, Fire 3, KeyUp ''ArrowLeft'']"

subsection \<open>The resolver rule of the specification\<close>

text \<open>
  The specification's rule for results of reconstruction requests, as it words it: every
  request carries the sequence number it got when issued, and an arriving result is
  applied only if its number is higher than that of the result applied last. The
  arrivals are pairs of sequence number and content, in order of arrival.
\<close>

fun spec_apply :: "(nat \<times> string) option \<Rightarrow> nat \<times> string \<Rightarrow> (nat \<times> string) option" where
  "spec_apply None a = Some a"
| "spec_apply (Some (n, c)) (m, d) = (if m > n then Some (m, d) else Some (n, c))"

definition spec_displayed :: "(nat \<times> string) list \<Rightarrow> string option" where
  "spec_displayed arrivals = map_option snd (foldl spec_apply None arrivals)"

section \<open>Properties\<close>

subsection \<open>The sample states, evaluated\<close>

lemma opened_eq:
  "opened = \<lparr> docUuid = ''doc'', content = ''five'', mode = Write,
     timestamps = [10, 20, 30, 40, 50], timeTravelIndex = 4, isTimeTravel = False,
     timeTravelContent = [], stats = Some (statsOf 5), saveTimeout = Some 1,
     isPopoverOpen = False, keyHoldInterval = None, keyHoldTimeout = None,
     timers = [Timer 1 SaveWindow 500 False], nextTimer = 2, inflight = [], nextReq = 3,
     listening = False, mounted = True,
     calls = [GetPatchTimestamps ''doc'', GetDocumentStats ''doc'',
              LoadDocumentAtTimestamp ''doc'' DateNow] \<rparr>"
  by (simp add: opened_def run_def step_def react_def init_def onMount_def await_def
      contentEffect_def handleContentChange_def setTimeout_def popoverEffect_def
      clearKeyHold_def settle_def settled_def onMount_afterTimestamps_def
      onMount_afterStats_def onMount_afterLoad_def SAVE_THROTTLE_MS_def)

lemma saving_eq:
  "saving = \<lparr> docUuid = ''doc'', content = ''five'', mode = Write,
     timestamps = [10, 20, 30, 40, 50], timeTravelIndex = 4, isTimeTravel = False,
     timeTravelContent = [], stats = Some (statsOf 5), saveTimeout = Some 1,
     isPopoverOpen = False, keyHoldInterval = None, keyHoldTimeout = None,
     timers = [], nextTimer = 2, inflight = [(3, SaveCreate)], nextReq = 4,
     listening = False, mounted = True,
     calls = [GetPatchTimestamps ''doc'', GetDocumentStats ''doc'',
              LoadDocumentAtTimestamp ''doc'' DateNow, CreatePatch ''doc'' ''five''] \<rparr>"
  by (simp add: saving_def opened_eq step_def react_def fire_def clearTimer_def
      performSave_def await_def)

lemma saved_eq:
  "saved = \<lparr> docUuid = ''doc'', content = ''five'', mode = Write,
     timestamps = [10, 20, 30, 40, 50, 60], timeTravelIndex = 5, isTimeTravel = False,
     timeTravelContent = [], stats = Some (statsOf 6), saveTimeout = None,
     isPopoverOpen = False, keyHoldInterval = None, keyHoldTimeout = None,
     timers = [], nextTimer = 2, inflight = [], nextReq = 6,
     listening = False, mounted = True,
     calls = [GetPatchTimestamps ''doc'', GetDocumentStats ''doc'',
              LoadDocumentAtTimestamp ''doc'' DateNow, CreatePatch ''doc'' ''five'',
              GetPatchTimestamps ''doc'', GetDocumentStats ''doc''] \<rparr>"
  by (simp add: saved_def saving_eq run_def step_def react_def settle_def settled_def
      performSave_afterCreate_def performSave_afterTimestamps_def
      performSave_afterStats_def await_def)

lemma travelling_eq:
  "travelling = \<lparr> docUuid = ''doc'', content = ''five'', mode = Write,
     timestamps = [10, 20, 30, 40, 50], timeTravelIndex = 2, isTimeTravel = True,
     timeTravelContent = ''three'', stats = Some (statsOf 5), saveTimeout = Some 1,
     isPopoverOpen = False, keyHoldInterval = None, keyHoldTimeout = None,
     timers = [], nextTimer = 2, inflight = [(4, SaveCreate)], nextReq = 5,
     listening = False, mounted = True,
     calls = [GetPatchTimestamps ''doc'', GetDocumentStats ''doc'',
              LoadDocumentAtTimestamp ''doc'' DateNow, LoadDocumentAtTimestamp ''doc'' (At 30),
              CreatePatch ''doc'' ''five''] \<rparr>"
  by (simp add: travelling_def opened_eq run_def step_def react_def jumpToVersion_def
      handleTimeTravelChange_def timestamp_at_def contentEffect_def settle_def settled_def
      handleTimeTravelChange_afterLoad_def fire_def clearTimer_def performSave_def
      await_def)

lemma travelled_eq:
  "travelled = \<lparr> docUuid = ''doc'', content = ''five'', mode = Write,
     timestamps = [10, 20, 30, 40, 50, 60], timeTravelIndex = 2, isTimeTravel = True,
     timeTravelContent = ''three'', stats = Some (statsOf 6), saveTimeout = None,
     isPopoverOpen = False, keyHoldInterval = None, keyHoldTimeout = None,
     timers = [], nextTimer = 2, inflight = [], nextReq = 7,
     listening = False, mounted = True,
     calls = [GetPatchTimestamps ''doc'', GetDocumentStats ''doc'',
              LoadDocumentAtTimestamp ''doc'' DateNow, LoadDocumentAtTimestamp ''doc'' (At 30),
              CreatePatch ''doc'' ''five'', GetPatchTimestamps ''doc'',
              GetDocumentStats ''doc''] \<rparr>"
  by (simp add: travelled_def travelling_eq run_def step_def react_def settle_def
      settled_def performSave_afterCreate_def performSave_afterTimestamps_def
      performSave_afterStats_def await_def)

lemma browsing_eq:
  "browsing = \<lparr> docUuid = ''doc'', content = ''five'', mode = Write,
     timestamps = [10, 20, 30, 40, 50], timeTravelIndex = 4, isTimeTravel = False,
     timeTravelContent = [], stats = Some (statsOf 5), saveTimeout = Some 1,
     isPopoverOpen = True, keyHoldInterval = None, keyHoldTimeout = None,
     timers = [Timer 1 SaveWindow 500 False], nextTimer = 2, inflight = [], nextReq = 3,
     listening = True, mounted = True,
     calls = [GetPatchTimestamps ''doc'', GetDocumentStats ''doc'',
              LoadDocumentAtTimestamp ''doc'' DateNow] \<rparr>"
  by (simp add: browsing_def opened_eq step_def react_def popoverEffect_def)

lemma repeating_eq:
  "repeating = \<lparr> docUuid = ''doc'', content = ''five'', mode = Write,
     timestamps = [10, 20, 30, 40, 50], timeTravelIndex = 3, isTimeTravel = True,
     timeTravelContent = [], stats = Some (statsOf 5), saveTimeout = Some 1,
     isPopoverOpen = True, keyHoldInterval = Some 3, keyHoldTimeout = Some 2,
     timers = [Timer 1 SaveWindow 500 False, Timer 3 (HoldRepeat (- 1)) 50 True],
     nextTimer = 4, inflight = [(3, TravelLoad)], nextReq = 4,
     listening = True, mounted = True,
     calls = [GetPatchTimestamps ''doc'', GetDocumentStats ''doc'',
              LoadDocumentAtTimestamp ''doc'' DateNow,
              LoadDocumentAtTimestamp ''doc'' (At 40)] \<rparr>"
  by (simp add: repeating_def browsing_eq run_def step_def react_def handleKeyDown_def
      isArrow_def direction_def clearKeyHold_def stepVersion_def jumpToVersion_def
      handleTimeTravelChange_def timestamp_at_def await_def setTimeout_def setInterval_def
      contentEffect_def fire_def clearTimer_def)

subsection \<open>Single events\<close>

lemma step_Edit_pending:
  "saveTimeout s \<noteq> None \<Longrightarrow> step s (Edit c) = s\<lparr> content := c \<rparr>"
  by (auto simp add: step_def react_def contentEffect_def handleContentChange_def Let_def)

lemma run_Edit_pending:
  "saveTimeout s \<noteq> None \<Longrightarrow> run s (map Edit cs) = s\<lparr> content := last (content s # cs) \<rparr>"
proof (induction cs arbitrary: s)
  case Nil
  then show ?case by (simp add: run_def)
next
  case (Cons c cs)
  have "run s (map Edit (c # cs)) = run (step s (Edit c)) (map Edit cs)"
    by (simp add: run_def)
  also have "\<dots> = run (s\<lparr> content := c \<rparr>) (map Edit cs)"
    using Cons.prems by (simp add: step_Edit_pending)
  also have "\<dots> = s\<lparr> content := last (c # cs) \<rparr>"
    using Cons.prems Cons.IH [of "s\<lparr> content := c \<rparr>"] by simp
  finally show ?case by simp
qed

lemma step_Edit_opens:
  "mounted s \<Longrightarrow> saveTimeout s = None \<Longrightarrow> \<not> isTimeTravel s \<Longrightarrow> c \<noteq> content s \<Longrightarrow>
   step s (Edit c) =
     s\<lparr> content := c, saveTimeout := Some (nextTimer s),
        timers := timers s @ [Timer (nextTimer s) SaveWindow SAVE_THROTTLE_MS False],
        nextTimer := Suc (nextTimer s) \<rparr>"
  by (simp add: step_def react_def contentEffect_def handleContentChange_def setTimeout_def
      Let_def)

lemma find_fresh:
  "list_all (\<lambda>t. tid t < n) ts \<Longrightarrow> find (\<lambda>t. tid t = n) (ts @ [Timer n f ms b]) = Some (Timer n f ms b)"
  by (induction ts) auto

lemma filter_fresh:
  "list_all (\<lambda>t. tid t < n) ts \<Longrightarrow> filter (\<lambda>t. tid t \<noteq> n) ts = ts"
  by (induction ts) auto

lemma step_Fire_save:
  "find (\<lambda>t. tid t = h) (timers s) = Some t \<Longrightarrow> cb t = SaveWindow \<Longrightarrow> \<not> repeats t \<Longrightarrow>
   step s (Fire h) = performSave (clearTimer h s)"
  by (simp add: step_def react_def fire_def performSave_def await_def clearTimer_def Let_def)



lemma step_Settle_create:
  "map_of (inflight s) r = Some SaveCreate \<Longrightarrow>
   step s (Settle r out) = performSave_afterCreate (settled r s)"
  by (simp add: step_def react_def settle_def settled_def performSave_afterCreate_def
      await_def Let_def)

lemma step_Settle_timestamps:
  "map_of (inflight s) r = Some SaveTimestamps \<Longrightarrow>
   step s (Settle r (Timestamps ts)) = performSave_afterTimestamps ts (settled r s)"
  by (simp add: step_def react_def settle_def settled_def performSave_afterTimestamps_def
      await_def Let_def)

lemma step_Settle_stats:
  "map_of (inflight s) r = Some SaveStats \<Longrightarrow>
   step s (Settle r (Stats st)) = performSave_afterStats st (settled r s)"
  by (simp add: step_def react_def settle_def settled_def performSave_afterStats_def
      Let_def)

subsection \<open>The key-repeat invariant\<close>

lemma holdOk_cases:
  "holdOk s \<longleftrightarrow>
     freshTimers s \<and>
     (holdTimers s = []
      \<or> (\<exists>h d. holdTimers s = [Timer h (HoldDelay d) 300 False] \<and> keyHoldTimeout s = Some h)
      \<or> (\<exists>h d. holdTimers s = [Timer h (HoldRepeat d) 50 True] \<and> keyHoldInterval s = Some h))"
  unfolding holdOk_def
  apply (cases "holdTimers s")
   apply simp
  subgoal for t ts
    apply (cases ts)
     apply (cases t)
    subgoal for h f ms b
      by (cases f) auto
    apply simp
    done
  done

lemma sameKeyHold_holdOk: "sameKeyHold s s' \<Longrightarrow> holdOk s' = holdOk s"
  by (simp add: sameKeyHold_def holdOk_cases holdTimers_def freshTimers_def)

lemma sameKeyHold_refl: "sameKeyHold s s"
  by (simp add: sameKeyHold_def)

lemma sameKeyHold_trans: "sameKeyHold s t \<Longrightarrow> sameKeyHold t u \<Longrightarrow> sameKeyHold s u"
  by (simp add: sameKeyHold_def)

lemma sameKeyHold_await: "sameKeyHold s (await c k s)"
  by (simp add: sameKeyHold_def await_def)

lemma sameKeyHold_settled: "sameKeyHold s (settled r s)"
  by (simp add: sameKeyHold_def settled_def)

lemma sameKeyHold_handleTimeTravelChange: "sameKeyHold s (handleTimeTravelChange v s)"
  by (simp add: sameKeyHold_def handleTimeTravelChange_def await_def Let_def)

lemma sameKeyHold_jumpToVersion: "sameKeyHold s (jumpToVersion i s)"
  by (simp add: jumpToVersion_def sameKeyHold_handleTimeTravelChange sameKeyHold_refl)

lemma sameKeyHold_stepVersion: "sameKeyHold s (stepVersion d s)"
  by (simp add: stepVersion_def Let_def sameKeyHold_jumpToVersion sameKeyHold_refl)

lemma sameKeyHold_resume: "sameKeyHold s (resume k out s)"
  by (cases "(k, out, s)" rule: resume.cases)
     (simp_all add: sameKeyHold_def performSave_afterCreate_def performSave_afterTimestamps_def
       performSave_afterStats_def onMount_afterTimestamps_def onMount_afterStats_def
       onMount_afterLoad_def handleTimeTravelChange_afterLoad_def await_def Let_def)

lemma sameKeyHold_settle: "sameKeyHold s (settle r out s)"
  by (auto simp add: settle_def split: option.splits
      intro: sameKeyHold_refl sameKeyHold_trans [OF sameKeyHold_settled sameKeyHold_resume])

lemma freshTimers_filter:
  "freshTimers s \<Longrightarrow> timers s' = filter P (timers s) \<Longrightarrow> nextTimer s' = nextTimer s \<Longrightarrow>
   freshTimers s'"
  by (simp add: freshTimers_def list_all_iff distinct_map_filter)

lemma freshTimers_append:
  "freshTimers s \<Longrightarrow> timers s' = timers s @ [t] \<Longrightarrow> tid t = nextTimer s \<Longrightarrow>
   nextTimer s' = Suc (nextTimer s) \<Longrightarrow> freshTimers s'"
  by (auto simp add: freshTimers_def list_all_iff)

lemma holdTimers_clearTimer:
  "holdTimers (clearTimer h s) = filter (\<lambda>t. tid t \<noteq> h) (holdTimers s)"
  by (simp add: holdTimers_def clearTimer_def conj_commute)

lemma freshTimers_clearTimer: "freshTimers s \<Longrightarrow> freshTimers (clearTimer h s)"
  by (rule freshTimers_filter [where P = "\<lambda>t. tid t \<noteq> h"]) (simp_all add: clearTimer_def)

lemma holdOk_idle: "holdTimers s = [] \<Longrightarrow> freshTimers s \<Longrightarrow> holdOk s"
  by (simp add: holdOk_cases)

lemma holdOk_clearTimer:
  assumes "holdOk s"
  shows "holdOk (clearTimer h s)"
proof -
  from assms have f: "freshTimers (clearTimer h s)"
    by (simp add: holdOk_cases freshTimers_clearTimer)
  have v: "keyHoldTimeout (clearTimer h s) = keyHoldTimeout s"
    "keyHoldInterval (clearTimer h s) = keyHoldInterval s"
    by (simp_all add: clearTimer_def)
  from assms consider
      (idle) "holdTimers s = []"
    | (delay) g d where "holdTimers s = [Timer g (HoldDelay d) 300 False]"
        "keyHoldTimeout s = Some g"
    | (rep) g d where "holdTimers s = [Timer g (HoldRepeat d) 50 True]"
        "keyHoldInterval s = Some g"
    by (auto simp add: holdOk_cases)
  then show ?thesis
  proof cases
    case idle
    then show ?thesis
      using f by (simp add: holdOk_idle holdTimers_clearTimer)
  next
    case delay
    then show ?thesis
      using f v by (cases "g = h") (simp_all add: holdOk_cases holdTimers_clearTimer)
  next
    case rep
    then show ?thesis
      using f v by (cases "g = h") (simp_all add: holdOk_cases holdTimers_clearTimer)
  qed
qed

lemma holdOk_clearIfSet: "holdOk s \<Longrightarrow> holdOk (clearIfSet v s)"
  by (simp add: clearIfSet_def holdOk_clearTimer split: option.splits)

lemma clearKeyHold_vars:
  "keyHoldTimeout (clearKeyHold s) = None \<and> keyHoldInterval (clearKeyHold s) = None
   \<and> nextTimer (clearKeyHold s) = nextTimer s"
  by (simp add: clearKeyHold_def clearTimer_def Let_def split: option.splits)

lemma clearKeyHold_timers:
  "timers (clearKeyHold s) =
     filter (\<lambda>t. Some (tid t) \<noteq> keyHoldInterval s \<and> Some (tid t) \<noteq> keyHoldTimeout s) (timers s)"
  by (auto simp add: clearKeyHold_def clearTimer_def Let_def split: option.splits
      intro: filter_cong)

lemma clearKeyHold_idle:
  assumes "holdOk s"
  shows "holdTimers (clearKeyHold s) = [] \<and> freshTimers (clearKeyHold s)"
proof -
  have t: "holdTimers (clearKeyHold s) =
     filter (\<lambda>t. Some (tid t) \<noteq> keyHoldInterval s \<and> Some (tid t) \<noteq> keyHoldTimeout s)
       (holdTimers s)"
    by (simp add: holdTimers_def clearKeyHold_timers conj_commute)
  have "freshTimers s"
    using assms by (simp add: holdOk_cases)
  then have f: "freshTimers (clearKeyHold s)"
    by (rule freshTimers_filter) (simp_all add: clearKeyHold_timers clearKeyHold_vars)
  have "holdTimers (clearKeyHold s) = []"
    using assms unfolding t holdOk_cases by auto
  with f show ?thesis by simp
qed

lemma holdOk_clearKeyHold: "holdOk s \<Longrightarrow> holdOk (clearKeyHold s)"
  by (simp add: clearKeyHold_idle holdOk_idle)

lemma stepVersion_frame:
  "timers (stepVersion d s) = timers s \<and> nextTimer (stepVersion d s) = nextTimer s
   \<and> keyHoldTimeout (stepVersion d s) = keyHoldTimeout s
   \<and> keyHoldInterval (stepVersion d s) = keyHoldInterval s"
  using sameKeyHold_stepVersion [of s d] by (simp add: sameKeyHold_def)

lemma handleKeyDown_armed:
  assumes "holdOk s" and "isPopoverOpen s" and "isArrow k"
  shows "holdTimers (handleKeyDown k s) = [Timer (nextTimer s) (HoldDelay (direction k)) 300 False]
    \<and> keyHoldTimeout (handleKeyDown k s) = Some (nextTimer s)
    \<and> keyHoldInterval (handleKeyDown k s) = None
    \<and> nextTimer (handleKeyDown k s) = Suc (nextTimer s)
    \<and> freshTimers (handleKeyDown k s)"
proof -
  let ?s2 = "stepVersion (direction k) (clearKeyHold s)"
  have idle: "holdTimers ?s2 = []"
    using clearKeyHold_idle [OF assms(1)] by (simp add: holdTimers_def stepVersion_frame)
  have n: "nextTimer ?s2 = nextTimer s"
    by (simp add: stepVersion_frame clearKeyHold_vars)
  have fresh: "freshTimers ?s2"
    using clearKeyHold_idle [OF assms(1)]
    by (simp add: freshTimers_def stepVersion_frame)
  have i: "keyHoldInterval ?s2 = None"
    by (simp add: stepVersion_frame clearKeyHold_vars)
  have e: "handleKeyDown k s =
      ?s2\<lparr> timers := timers ?s2 @ [Timer (nextTimer s) (HoldDelay (direction k)) 300 False],
           nextTimer := Suc (nextTimer s), keyHoldTimeout := Some (nextTimer s) \<rparr>"
    using assms(2,3) n by (simp add: handleKeyDown_def Let_def setTimeout_def)
  have "freshTimers (handleKeyDown k s)"
    using fresh
    by (rule freshTimers_append
        [where t = "Timer (nextTimer s) (HoldDelay (direction k)) 300 False"])
      (simp_all add: e n)
  then show ?thesis
    using idle i by (simp add: e holdTimers_def)
qed

lemma holdOk_handleKeyDown: "holdOk s \<Longrightarrow> holdOk (handleKeyDown k s)"
proof (cases "isPopoverOpen s \<and> isArrow k")
  case True
  assume "holdOk s"
  with True show ?thesis
    using handleKeyDown_armed [of s k] by (simp add: holdOk_cases)
next
  case False
  assume "holdOk s"
  with False show ?thesis
    by (auto simp add: handleKeyDown_def)
qed

lemma holdOk_handleKeyUp: "holdOk s \<Longrightarrow> holdOk (handleKeyUp k s)"
  by (simp add: handleKeyUp_def holdOk_clearKeyHold)

lemma holdOk_handleContentChange:
  assumes "holdOk s"
  shows "holdOk (handleContentChange s)"
proof (cases "saveTimeout s")
  case None
  let ?s' = "handleContentChange s"
  have e: "?s' = s\<lparr> timers := timers s @ [Timer (nextTimer s) SaveWindow SAVE_THROTTLE_MS False],
      nextTimer := Suc (nextTimer s), saveTimeout := Some (nextTimer s) \<rparr>"
    using None by (simp add: handleContentChange_def setTimeout_def)
  have "freshTimers s"
    using assms by (simp add: holdOk_cases)
  then have "freshTimers ?s'"
    by (rule freshTimers_append
        [where t = "Timer (nextTimer s) SaveWindow SAVE_THROTTLE_MS False"])
      (simp_all add: e)
  moreover have "holdTimers ?s' = holdTimers s"
    by (simp add: e holdTimers_def)
  moreover have "keyHoldTimeout ?s' = keyHoldTimeout s" "keyHoldInterval ?s' = keyHoldInterval s"
    by (simp_all add: e)
  ultimately show ?thesis
    using assms by (simp add: holdOk_cases)
next
  case (Some h)
  then show ?thesis
    using assms by (simp add: handleContentChange_def)
qed

lemma holdOk_contentEffect: "holdOk s \<Longrightarrow> holdOk (contentEffect s)"
  by (simp add: contentEffect_def holdOk_handleContentChange)

lemma holdOk_react: "holdOk s' \<Longrightarrow> holdOk (react s s')"
  by (simp add: react_def holdOk_contentEffect)

lemma holdOk_listening: "holdOk (s\<lparr> listening := b \<rparr>) = holdOk s"
  by (rule sameKeyHold_holdOk) (simp add: sameKeyHold_def)

lemma holdOk_popoverEffect: "holdOk s \<Longrightarrow> holdOk (popoverEffect s)"
  by (simp add: popoverEffect_def holdOk_clearKeyHold holdOk_listening)

lemma holdOk_onDestroy: "holdOk s \<Longrightarrow> holdOk (onDestroy s)"
  by (simp add: onDestroy_def holdOk_clearIfSet)

lemma find_distinct:
  "distinct (map tid ts) \<Longrightarrow> t \<in> set ts \<Longrightarrow> find (\<lambda>u. tid u = tid t) ts = Some t"
  by (induction ts) (auto simp add: image_iff)

lemma holdTimers_member:
  "holdTimers s = [t] \<Longrightarrow> t \<in> set (timers s)"
proof -
  assume "holdTimers s = [t]"
  then have "t \<in> set (holdTimers s)" by simp
  then show ?thesis by (simp add: holdTimers_def)
qed

lemma holdOk_find:
  assumes "holdOk s" and "holdTimers s = [t]"
  shows "find (\<lambda>u. tid u = tid t) (timers s) = Some t"
proof -
  have "distinct (map tid (timers s))"
    using assms(1) by (simp add: holdOk_cases freshTimers_def)
  then show ?thesis
    using holdTimers_member [OF assms(2)] by (rule find_distinct)
qed

lemma fire_delay:
  assumes "holdOk s" and "holdTimers s = [Timer h (HoldDelay d) 300 False]"
  shows "fire h s =
      s\<lparr> timers := filter (\<lambda>t. tid t \<noteq> h) (timers s) @ [Timer (nextTimer s) (HoldRepeat d) 50 True],
         nextTimer := Suc (nextTimer s), keyHoldInterval := Some (nextTimer s) \<rparr>"
    and "holdTimers (fire h s) = [Timer (nextTimer s) (HoldRepeat d) 50 True]"
    and "freshTimers (fire h s)"
proof -
  let ?t = "Timer h (HoldDelay d) 300 False"
  have "find (\<lambda>u. tid u = tid ?t) (timers s) = Some ?t"
    using assms by (rule holdOk_find)
  then show e: "fire h s =
      s\<lparr> timers := filter (\<lambda>t. tid t \<noteq> h) (timers s) @ [Timer (nextTimer s) (HoldRepeat d) 50 True],
         nextTimer := Suc (nextTimer s), keyHoldInterval := Some (nextTimer s) \<rparr>"
    by (simp add: fire_def clearTimer_def setInterval_def)
  have "filter (\<lambda>t. tid t \<noteq> h) (holdTimers s) = []"
    using assms(2) by simp
  then show "holdTimers (fire h s) = [Timer (nextTimer s) (HoldRepeat d) 50 True]"
    by (simp add: e holdTimers_def conj_commute)
  have "freshTimers (clearTimer h s)"
    using assms(1) by (simp add: holdOk_cases freshTimers_clearTimer)
  then show "freshTimers (fire h s)"
    by (rule freshTimers_append [where t = "Timer (nextTimer s) (HoldRepeat d) 50 True"])
      (simp_all add: e clearTimer_def)
qed

lemma fire_repeat:
  assumes "holdOk s" and "holdTimers s = [Timer h (HoldRepeat d) 50 True]"
  shows "fire h s = stepVersion d s"
proof -
  let ?t = "Timer h (HoldRepeat d) 50 True"
  have "find (\<lambda>u. tid u = tid ?t) (timers s) = Some ?t"
    using assms by (rule holdOk_find)
  then show ?thesis
    by (simp add: fire_def)
qed

lemma sameKeyHold_performSave: "sameKeyHold s (performSave s)"
  by (simp add: performSave_def sameKeyHold_await)

lemma holdOk_fire:
  assumes "holdOk s"
  shows "holdOk (fire h s)"
proof (cases "find (\<lambda>t. tid t = h) (timers s)")
  case None
  then show ?thesis
    using assms by (simp add: fire_def)
next
  case (Some t)
  then have mem: "t \<in> set (timers s)" and h: "tid t = h"
    by (auto simp add: find_Some_iff)
  show ?thesis
  proof (cases "cb t")
    case SaveWindow
    have "holdOk (if repeats t then s else clearTimer h s)"
      using assms by (simp add: holdOk_clearTimer)
    then have "holdOk (performSave (if repeats t then s else clearTimer h s))"
      using sameKeyHold_holdOk [OF sameKeyHold_performSave] by simp
    then show ?thesis
      using Some SaveWindow by (simp add: fire_def)
  next
    case (HoldDelay d)
    have "t \<in> set (holdTimers s)"
      using mem HoldDelay by (simp add: holdTimers_def)
    then have "holdTimers s = [Timer h (HoldDelay d) 300 False]"
      using assms h HoldDelay by (auto simp add: holdOk_cases)
    from fire_delay(2,3) [OF assms this] show ?thesis
      by (simp add: holdOk_cases fire_delay(1) [OF assms \<open>holdTimers s = [Timer h (HoldDelay d) 300 False]\<close>])
  next
    case (HoldRepeat d)
    have "t \<in> set (holdTimers s)"
      using mem HoldRepeat by (simp add: holdTimers_def)
    then have "holdTimers s = [Timer h (HoldRepeat d) 50 True]"
      using assms h HoldRepeat by (auto simp add: holdOk_cases)
    then have "fire h s = stepVersion d s"
      using assms by (simp add: fire_repeat)
    then show ?thesis
      using assms sameKeyHold_holdOk [OF sameKeyHold_stepVersion, of d s] by simp
  qed
qed

lemma holdOk_frame: "sameKeyHold s s' \<Longrightarrow> holdOk s \<Longrightarrow> holdOk s'"
  by (simp add: sameKeyHold_holdOk)

lemma holdOk_handle:
  assumes "holdOk s"
  shows "holdOk (handle e s)"
proof (cases e)
  case Mount
  have "holdOk (onMount (s\<lparr> mounted := True \<rparr>))"
    using assms by (rule holdOk_frame [rotated]) (simp add: onMount_def await_def sameKeyHold_def)
  then show ?thesis
    using Mount by (simp add: holdOk_popoverEffect holdOk_contentEffect)
next
  case Destroy
  then show ?thesis
    using holdOk_onDestroy [OF assms]
    by (simp add: holdOk_frame [of "onDestroy s"] sameKeyHold_def)
next
  case (Edit c)
  then show ?thesis
    using assms by (simp add: holdOk_frame [of s] sameKeyHold_def)
next
  case (SetMode m)
  then show ?thesis
    using assms by (simp add: holdOk_frame [of s] sameKeyHold_def)
next
  case (SetPopover b)
  have "holdOk (s\<lparr> isPopoverOpen := c \<rparr>)" for c
    using assms by (simp add: holdOk_frame [of s] sameKeyHold_def)
  then show ?thesis
    using SetPopover assms by (simp add: holdOk_popoverEffect)
next
  case (SliderChange v)
  then show ?thesis
    using assms holdOk_frame [OF sameKeyHold_handleTimeTravelChange] by simp
next
  case (JumpClick i)
  then show ?thesis
    using assms holdOk_frame [OF sameKeyHold_jumpToVersion] by simp
next
  case (StepClick d)
  then show ?thesis
    using assms holdOk_frame [OF sameKeyHold_stepVersion] by simp
next
  case ExitClick
  then show ?thesis
    using assms by (simp add: holdOk_frame [of s] sameKeyHold_def exitTimeTravel_def)
next
  case (KeyDown k)
  then show ?thesis
    using assms by (simp add: holdOk_handleKeyDown)
next
  case (KeyUp k)
  then show ?thesis
    using assms by (simp add: holdOk_handleKeyUp)
next
  case (Fire h)
  then show ?thesis
    using assms by (simp add: holdOk_fire)
next
  case (Settle r out)
  then show ?thesis
    using assms holdOk_frame [OF sameKeyHold_settle] by simp
qed

lemma holdOk_step: "holdOk s \<Longrightarrow> holdOk (step s e)"
  by (simp add: step_def Let_def holdOk_react holdOk_handle)

lemma holdOk_run: "holdOk s \<Longrightarrow> holdOk (run s es)"
  unfolding run_def by (induction es arbitrary: s) (simp_all add: holdOk_step)

lemma holdOk_init: "holdOk (init doc)"
  by (simp add: holdOk_def init_def freshTimers_def holdTimers_def)
subsection \<open>Key events and timers that fire\<close>

lemma react_same: "react s s = s"
  by (simp add: react_def)

lemma react_travel:
  "content s' = content s \<Longrightarrow> isTimeTravel s' \<or> isTimeTravel s' = isTimeTravel s \<Longrightarrow>
   react s s' = s'"
  by (auto simp add: react_def contentEffect_def)

lemma stepVersion_cases:
  "stepVersion d s = s \<or>
   stepVersion d s =
     s\<lparr> timeTravelIndex := timeTravelIndex s + d, isTimeTravel := True,
        calls := calls s @ [LoadDocumentAtTimestamp (docUuid s)
          (timestamp_at (timestamps s) (timeTravelIndex s + d))],
        inflight := inflight s @ [(nextReq s, TravelLoad)], nextReq := Suc (nextReq s) \<rparr>"
  by (simp add: stepVersion_def jumpToVersion_def handleTimeTravelChange_def await_def Let_def)

lemma stepVersion_keeps:
  "content (stepVersion d s) = content s \<and> listening (stepVersion d s) = listening s
   \<and> isPopoverOpen (stepVersion d s) = isPopoverOpen s
   \<and> (isTimeTravel (stepVersion d s) \<or> isTimeTravel (stepVersion d s) = isTimeTravel s)"
  using stepVersion_cases [of d s] by auto

lemma clearKeyHold_keeps:
  "content (clearKeyHold s) = content s \<and> listening (clearKeyHold s) = listening s
   \<and> isPopoverOpen (clearKeyHold s) = isPopoverOpen s
   \<and> isTimeTravel (clearKeyHold s) = isTimeTravel s \<and> nav (clearKeyHold s) = nav s"
  by (simp add: clearKeyHold_def clearTimer_def nav_def Let_def split: option.splits)

lemma nav_stepVersion_clearKeyHold:
  "nav (stepVersion d (clearKeyHold s)) = nav (stepVersion d s)"
  by (simp add: nav_def stepVersion_def jumpToVersion_def handleTimeTravelChange_def
      await_def clearKeyHold_def clearTimer_def Let_def split: option.splits)

lemma handleKeyDown_keeps:
  "content (handleKeyDown k s) = content s \<and> listening (handleKeyDown k s) = listening s
   \<and> isPopoverOpen (handleKeyDown k s) = isPopoverOpen s
   \<and> (isTimeTravel (handleKeyDown k s) \<or> isTimeTravel (handleKeyDown k s) = isTimeTravel s)"
  using stepVersion_keeps [of "direction k" "clearKeyHold s"] clearKeyHold_keeps [of s]
  by (simp add: handleKeyDown_def setTimeout_def Let_def)

lemma step_KeyDown: "listening s \<Longrightarrow> step s (KeyDown k) = handleKeyDown k s"
  using handleKeyDown_keeps [of k s] by (simp add: step_def react_travel)

lemma step_KeyUp: "listening s \<Longrightarrow> isArrow k \<Longrightarrow> step s (KeyUp k) = clearKeyHold s"
  using clearKeyHold_keeps [of s] by (simp add: step_def handleKeyUp_def react_travel)

lemma nav_handleKeyDown:
  "isPopoverOpen s \<Longrightarrow> isArrow k \<Longrightarrow> nav (handleKeyDown k s) = nav (stepVersion (direction k) s)"
  using nav_stepVersion_clearKeyHold [of "direction k" s]
  by (simp add: handleKeyDown_def setTimeout_def Let_def nav_def)

lemma step_Fire_delay:
  assumes "holdOk s" and "holdTimers s = [Timer h (HoldDelay d) 300 False]"
  shows "step s (Fire h) = fire h s"
  by (simp add: step_def fire_delay(1) [OF assms] react_travel)

lemma step_Fire_repeat:
  assumes "holdOk s" and "holdTimers s = [Timer h (HoldRepeat d) 50 True]"
  shows "step s (Fire h) = stepVersion d s"
  using stepVersion_keeps [of d s]
  by (simp add: step_def fire_repeat [OF assms] react_travel)

lemma step_Fire_unarmed:
  "find (\<lambda>t. tid t = h) (timers s) = None \<Longrightarrow> step s (Fire h) = s"
  by (simp add: step_def fire_def react_same)

lemma holdTimers_stepVersion: "holdTimers (stepVersion d s) = holdTimers s"
  by (simp add: holdTimers_def stepVersion_frame)

lemma holdOk_stepVersion: "holdOk s \<Longrightarrow> holdOk (stepVersion d s)"
  using sameKeyHold_holdOk [OF sameKeyHold_stepVersion, of d s] by simp

lemma run_repeat:
  assumes "holdOk s" and "holdTimers s = [Timer h (HoldRepeat d) 50 True]"
  shows "run s (replicate m (Fire h)) = (stepVersion d ^^ m) s"
  using assms
proof (induction m arbitrary: s)
  case 0
  then show ?case by (simp add: run_def)
next
  case (Suc m)
  have "run s (replicate (Suc m) (Fire h)) = run (step s (Fire h)) (replicate m (Fire h))"
    by (simp add: run_def)
  also have "\<dots> = run (stepVersion d s) (replicate m (Fire h))"
    using Suc.prems by (simp add: step_Fire_repeat)
  also have "\<dots> = (stepVersion d ^^ m) (stepVersion d s)"
    using Suc.prems by (intro Suc.IH) (simp_all add: holdOk_stepVersion holdTimers_stepVersion)
  finally show ?case
    by (simp add: funpow_swap1)
qed

lemma funpow_stepVersion:
  "holdOk ((stepVersion d ^^ m) s) = holdOk s
   \<and> holdTimers ((stepVersion d ^^ m) s) = holdTimers s
   \<and> listening ((stepVersion d ^^ m) s) = listening s
   \<and> isPopoverOpen ((stepVersion d ^^ m) s) = isPopoverOpen s
   \<and> nextTimer ((stepVersion d ^^ m) s) = nextTimer s
   \<and> keyHoldInterval ((stepVersion d ^^ m) s) = keyHoldInterval s
   \<and> keyHoldTimeout ((stepVersion d ^^ m) s) = keyHoldTimeout s"
  by (induction m)
    (simp_all add: holdTimers_stepVersion stepVersion_keeps stepVersion_frame
      sameKeyHold_holdOk [OF sameKeyHold_stepVersion])

lemma keyUp_silences:
  assumes "holdOk s" and "listening s" and "isArrow k"
  shows "holdTimers (step s (KeyUp k)) = []"
    and "keyHoldTimeout (step s (KeyUp k)) = None \<and> keyHoldInterval (step s (KeyUp k)) = None"
    and "nav (step s (KeyUp k)) = nav s"
    and "holdTimers s = [t] \<Longrightarrow> step (step s (KeyUp k)) (Fire (tid t)) = step s (KeyUp k)"
proof -
  have e: "step s (KeyUp k) = clearKeyHold s"
    using assms(2,3) by (rule step_KeyUp)
  show "holdTimers (step s (KeyUp k)) = []"
    using clearKeyHold_idle [OF assms(1)] by (simp add: e)
  show "keyHoldTimeout (step s (KeyUp k)) = None \<and> keyHoldInterval (step s (KeyUp k)) = None"
    by (simp add: e clearKeyHold_vars)
  show "nav (step s (KeyUp k)) = nav s"
    by (simp add: e clearKeyHold_keeps)
  assume one: "holdTimers s = [t]"
  have "Some (tid t) = keyHoldInterval s \<or> Some (tid t) = keyHoldTimeout s"
    using assms(1) one by (auto simp add: holdOk_cases)
  then have "find (\<lambda>u. tid u = tid t) (timers (clearKeyHold s)) = None"
    by (auto simp add: clearKeyHold_timers find_None_iff)
  then show "step (step s (KeyUp k)) (Fire (tid t)) = step s (KeyUp k)"
    unfolding e by (rule step_Fire_unarmed)
qed

lemma fire_other:
  assumes "holdOk s" and "holdTimers s = [x]" and "h \<noteq> tid x"
  shows "timeTravelIndex (step s (Fire h)) = timeTravelIndex s
    \<and> isTimeTravel (step s (Fire h)) = isTimeTravel s"
proof (cases "find (\<lambda>t. tid t = h) (timers s)")
  case None
  then show ?thesis by (simp add: step_Fire_unarmed)
next
  case (Some t)
  then have mem: "t \<in> set (timers s)" and h: "tid t = h"
    by (auto simp add: find_Some_iff)
  have "t \<notin> set (holdTimers s)"
    using assms(2,3) h by auto
  then have "cb t = SaveWindow"
    using mem by (simp add: holdTimers_def)
  then have "fire h s = performSave (if repeats t then s else clearTimer h s)"
    using Some by (simp add: fire_def)
  then show ?thesis
    by (simp add: step_def react_def performSave_def await_def clearTimer_def
        contentEffect_def)
qed

lemma run_append: "run s (es @ fs) = run (run s es) fs"
  by (simp add: run_def)

lemma run_Cons: "run s (e # es) = run (step s e) es"
  by (simp add: run_def)

lemma run_Nil: "run s [] = s"
  by (simp add: run_def)

lemma holdOk_lengths:
  assumes "holdOk s"
  shows "length (holdTimers s) \<le> 1 \<and> length (delayTimers s) \<le> 1
    \<and> length (repeatTimers s) \<le> 1"
proof -
  have d: "delayTimers s = filter (\<lambda>t. case cb t of HoldDelay d \<Rightarrow> True | _ \<Rightarrow> False) (holdTimers s)"
    unfolding delayTimers_def holdTimers_def filter_filter
    by (rule filter_cong) (auto split: callback.splits)
  have r: "repeatTimers s = filter (\<lambda>t. case cb t of HoldRepeat d \<Rightarrow> True | _ \<Rightarrow> False) (holdTimers s)"
    unfolding repeatTimers_def holdTimers_def filter_filter
    by (rule filter_cong) (auto split: callback.splits)
  have "length (holdTimers s) \<le> 1"
    using assms by (auto simp add: holdOk_cases)
  moreover have "length (delayTimers s) \<le> length (holdTimers s)"
    unfolding d by (rule length_filter_le)
  moreover have "length (repeatTimers s) \<le> length (holdTimers s)"
    unfolding r by (rule length_filter_le)
  ultimately show ?thesis by simp
qed

lemma holdTimers_onDestroy:
  assumes "holdOk s"
  shows "holdTimers (onDestroy s) = []"
proof -
  have t: "timers (onDestroy s) =
      filter (\<lambda>t. Some (tid t) \<noteq> saveTimeout s \<and> Some (tid t) \<noteq> keyHoldInterval s
        \<and> Some (tid t) \<noteq> keyHoldTimeout s) (timers s)"
    by (auto simp add: onDestroy_def clearIfSet_def clearTimer_def split: option.splits
        intro: filter_cong)
  have "holdTimers (onDestroy s) =
      filter (\<lambda>t. Some (tid t) \<noteq> saveTimeout s \<and> Some (tid t) \<noteq> keyHoldInterval s
        \<and> Some (tid t) \<noteq> keyHoldTimeout s) (holdTimers s)"
    by (simp add: holdTimers_def t conj_commute)
  then show ?thesis
    using assms by (auto simp add: holdOk_cases)
qed

lemma holdOk_browsing: "holdOk browsing"
  by (simp add: browsing_eq holdOk_def freshTimers_def holdTimers_def)

lemma rewound_eq:
  "rewound = \<lparr> docUuid = ''doc'', content = ''five'', mode = Write,
     timestamps = [10, 20, 30, 40, 50], timeTravelIndex = 1, isTimeTravel = True,
     timeTravelContent = [], stats = Some (statsOf 5), saveTimeout = Some 1,
     isPopoverOpen = True, keyHoldInterval = None, keyHoldTimeout = None,
     timers = [Timer 1 SaveWindow 500 False],
     nextTimer = 4, inflight = [(3, TravelLoad), (4, TravelLoad), (5, TravelLoad)],
     nextReq = 6, listening = True, mounted = True,
     calls = [GetPatchTimestamps ''doc'', GetDocumentStats ''doc'',
              LoadDocumentAtTimestamp ''doc'' DateNow,
              LoadDocumentAtTimestamp ''doc'' (At 40),
              LoadDocumentAtTimestamp ''doc'' (At 30),
              LoadDocumentAtTimestamp ''doc'' (At 20)] \<rparr>"
  by (simp add: rewound_def repeating_eq run_def step_def react_def fire_def
      stepVersion_def jumpToVersion_def handleTimeTravelChange_def timestamp_at_def
      await_def contentEffect_def handleKeyUp_def isArrow_def clearKeyHold_def
      clearTimer_def)

lemma holdOk_rewound: "holdOk rewound"
  by (simp add: rewound_eq holdOk_def freshTimers_def holdTimers_def)

subsection \<open>Stepping at the ends of the timeline\<close>

text \<open>
  C7. At index 0 a step of -1, and at the last index a step of +1, leave the whole state
  as it is: the index does not move, does not wrap, and no call goes out (the record of
  calls and the pool of pending calls are part of the state). The same holds for the
  event of pressing the button. Nothing in \<open>stepVersion\<close> can fail.
\<close>

theorem stepVersion_boundary_noop:
  "(timeTravelIndex s = 0 \<longrightarrow>
      stepVersion (- 1) s = s \<and> step s (StepClick (- 1)) = s) \<and>
   (timeTravelIndex s = int (length (timestamps s)) - 1 \<longrightarrow>
      stepVersion 1 s = s \<and> step s (StepClick 1) = s)"
  by (simp add: stepVersion_def step_def react_def)

theorem stepVersion_boundary_noop_witness:
  "timeTravelIndex (step opened (JumpClick 0)) = 0
   \<and> stepVersion (- 1) (step opened (JumpClick 0)) = step opened (JumpClick 0)
   \<and> step (step opened (JumpClick 0)) (StepClick (- 1)) = step opened (JumpClick 0)
   \<and> timeTravelIndex opened = int (length (timestamps opened)) - 1
   \<and> stepVersion 1 opened = opened \<and> step opened (StepClick 1) = opened"
proof -
  define first where "first = step opened (JumpClick 0)"
  have f: "timeTravelIndex first = 0"
    by (simp add: first_def opened_eq step_def react_def jumpToVersion_def
        handleTimeTravelChange_def await_def contentEffect_def)
  have l: "timeTravelIndex opened = int (length (timestamps opened)) - 1"
    by (simp add: opened_eq)
  show ?thesis
    using f l stepVersion_boundary_noop [of first] stepVersion_boundary_noop [of opened]
    unfolding first_def by simp
qed

subsection \<open>The empty timeline\<close>

text \<open>
  C9. With no timestamp known, \<open>jumpToVersion\<close> and \<open>stepVersion\<close> return the state
  they were given, for every index and every delta (so the index is unchanged, time
  travel is not entered and no call goes out), as do the button events; and when the
  statistics arrive in \<open>onMount\<close>, they are stored and the content is not loaded: no call
  goes out and nothing is left pending.
\<close>

theorem empty_timeline_inert:
  assumes "timestamps s = []"
  shows "jumpToVersion i s = s \<and> stepVersion d s = s
    \<and> step s (JumpClick i) = s \<and> step s (StepClick d) = s
    \<and> onMount_afterStats st s = s\<lparr> stats := Some st \<rparr>
    \<and> (map_of (inflight s) r = Some MountStats \<longrightarrow>
        step s (Settle r (Stats st)) = (settled r s)\<lparr> stats := Some st \<rparr>
        \<and> calls (step s (Settle r (Stats st))) = calls s)"
proof -
  have j: "jumpToVersion k s = s" for k
    using assms by (simp add: jumpToVersion_def) linarith
  have v: "stepVersion d s = s"
    by (simp add: stepVersion_def Let_def j)
  have m: "onMount_afterStats st t = t\<lparr> stats := Some st \<rparr>" if "timestamps t = []" for t
    using that by (simp add: onMount_afterStats_def)
  have e: "map_of (inflight s) r = Some MountStats \<longrightarrow>
        step s (Settle r (Stats st)) = (settled r s)\<lparr> stats := Some st \<rparr>
        \<and> calls (step s (Settle r (Stats st))) = calls s"
    using assms m [of "settled r s"]
    by (simp add: step_def react_def settle_def settled_def)
  have c: "step s (JumpClick i) = s \<and> step s (StepClick d) = s"
    by (simp add: j v step_def react_def)
  from j [of i] v c m [OF assms] e show ?thesis
    by blast
qed

theorem empty_timeline_inert_witness:
  "timestamps (init ''doc'') = []
   \<and> jumpToVersion 0 (init ''doc'') = init ''doc''
   \<and> stepVersion 1 (init ''doc'') = init ''doc''
   \<and> timestamps (run (init ''doc'') [Mount, Settle 0 (Timestamps [])]) = []
   \<and> map_of (inflight (run (init ''doc'') [Mount, Settle 0 (Timestamps [])])) 1 = Some MountStats
   \<and> calls (step (run (init ''doc'') [Mount, Settle 0 (Timestamps [])]) (Settle 1 (Stats (statsOf 0))))
       = [GetPatchTimestamps ''doc'', GetDocumentStats ''doc'']"
proof -
  define fresh where "fresh = run (init ''doc'') [Mount, Settle 0 (Timestamps [])]"
  have e: "timestamps (init ''doc'') = []"
    by (simp add: init_def)
  have f: "timestamps fresh = []" "map_of (inflight fresh) 1 = Some MountStats"
    "calls fresh = [GetPatchTimestamps ''doc'', GetDocumentStats ''doc'']"
    by (simp_all add: fresh_def run_def step_def react_def init_def onMount_def await_def
        contentEffect_def handleContentChange_def setTimeout_def popoverEffect_def
        clearKeyHold_def settle_def settled_def onMount_afterTimestamps_def)
  have a: "jumpToVersion 0 (init ''doc'') = init ''doc'' \<and> stepVersion 1 (init ''doc'') = init ''doc''"
    using empty_timeline_inert [OF e, of 0 1 "statsOf 0" 0] by simp
  have b: "calls (step fresh (Settle 1 (Stats (statsOf 0)))) =
      [GetPatchTimestamps ''doc'', GetDocumentStats ''doc'']"
    using empty_timeline_inert [OF f(1), of 0 1 "statsOf 0" 1] f(2,3)
    by (simp add: settled_def)
  show ?thesis
    using e a b f(1,2) unfolding fresh_def by simp
qed

subsection \<open>Edits during time travel\<close>

text \<open>
  C6. While time travel is on, the edit effect does nothing: it does not call
  \<open>handleContentChange\<close>, so no timer is armed and \<open>saveTimeout\<close> is not set. An edit
  event in that state changes the content and nothing else.
\<close>

theorem edit_ignored_in_time_travel:
  assumes "isTimeTravel s"
  shows "contentEffect s = s \<and> step s (Edit c) = s\<lparr> content := c \<rparr>
    \<and> timers (step s (Edit c)) = timers s
    \<and> saveTimeout (step s (Edit c)) = saveTimeout s"
  using assms by (simp add: contentEffect_def step_def react_def)

theorem edit_ignored_in_time_travel_witness:
  "isTimeTravel travelled
   \<and> step travelled (Edit ''typed'') = travelled\<lparr> content := ''typed'' \<rparr>
   \<and> timers (step travelled (Edit ''typed'')) = []
   \<and> saveTimeout (step travelled (Edit ''typed'')) = None"
proof -
  have h: "isTimeTravel travelled" "timers travelled = []" "saveTimeout travelled = None"
    by (simp_all add: travelled_eq)
  show ?thesis
    using h edit_ignored_in_time_travel [OF h(1), of "''typed''"] by simp
qed

subsection \<open>The statistics header on the sample\<close>

text \<open>
  C8. For 4 patches, 40 delta bytes, 4000 uncompressed bytes and a ratio of 100, the
  average is 10 bytes per patch, \<open>formatBytes\<close> prints it as "10 B", and the ratio span
  reads "(100.0x compression)".
\<close>

theorem stats_header_sample:
  "averageBytes sampleStats = 10
   \<and> formatBytes (averageBytes sampleStats) = ''10 B''
   \<and> toFixed1 (compression_ratio sampleStats) @ ''x compression'' = ''100.0x compression''
   \<and> statsHeader (Some sampleStats) =
       Some [''40 B'', ''3.91 KB'', ''(100.0x compression)'', ''4 patches'', ''avg 10 B/patch'']"
proof -
  have avg: "averageBytes sampleStats = 10"
    by (simp add: averageBytes_def sampleStats_def statsOf_def mathRound_def)
  have f10: "formatBytes 10 = ''10 B''"
    by (simp add: formatBytes_def logFloor.simps mathRound_def hundredthsToString_def
        numberToString.simps digit_def sizes_def)
  have f40: "formatBytes 40 = ''40 B''"
    by (simp add: formatBytes_def logFloor.simps mathRound_def hundredthsToString_def
        numberToString.simps digit_def sizes_def)
  have f4000: "formatBytes 4000 = ''3.91 KB''"
    by (simp add: formatBytes_def logFloor.simps mathRound_def hundredthsToString_def
        numberToString.simps digit_def sizes_def)
  have ratio: "toFixed1 100 = ''100.0''"
    by (simp add: toFixed1_def numberToString.simps digit_def)
  have fields: "total_patches sampleStats = 4" "total_delta_bytes sampleStats = 40"
    "total_uncompressed_bytes sampleStats = 4000" "compression_ratio sampleStats = 100"
    by (simp_all add: sampleStats_def statsOf_def)
  have hdr: "statsHeader (Some sampleStats) =
       Some [''40 B'', ''3.91 KB'', ''(100.0x compression)'', ''4 patches'', ''avg 10 B/patch'']"
    by (simp add: statsHeader_def avg f10 f40 f4000 ratio fields numberToString.simps digit_def)
  show ?thesis
    by (simp add: avg f10 ratio fields hdr)
qed
subsection \<open>One save per throttle window\<close>

text \<open>
  C2. In a mounted component outside time travel, an edit that finds no window pending
  arms the one save timer. Every further edit of
  the burst changes the content and nothing else: no second timer, no call. When the
  timer fires, exactly one \<^verbatim>\<open>createPatch\<close> goes out, and its content argument is the
  content of the last edit of the burst, not that of the edit which opened the window;
  the timer is then spent.
\<close>

theorem throttle_coalescing:
  assumes live: "mounted s"
    and idle: "saveTimeout s = None"
    and editing: "\<not> isTimeTravel s"
    and changed: "c \<noteq> content s"
    and fresh: "freshTimers s"
  shows "timers (run s (Edit c # map Edit cs)) =
           timers s @ [Timer (nextTimer s) SaveWindow SAVE_THROTTLE_MS False]
     \<and> calls (run s (Edit c # map Edit cs)) = calls s
     \<and> calls (run s (Edit c # map Edit cs @ [Fire (nextTimer s)])) =
           calls s @ [CreatePatch (docUuid s) (last (c # cs))]
     \<and> timers (run s (Edit c # map Edit cs @ [Fire (nextTimer s)])) = timers s"
proof -
  let ?w = "Timer (nextTimer s) SaveWindow SAVE_THROTTLE_MS False"
  define s1 where "s1 = step s (Edit c)"
  define s2 where "s2 = run s1 (map Edit cs)"
  have s1: "s1 = s\<lparr> content := c, saveTimeout := Some (nextTimer s),
        timers := timers s @ [?w], nextTimer := Suc (nextTimer s) \<rparr>"
    unfolding s1_def using live idle editing changed by (rule step_Edit_opens)
  have "saveTimeout s1 \<noteq> None"
    by (simp add: s1)
  then have "s2 = s1\<lparr> content := last (content s1 # cs) \<rparr>"
    unfolding s2_def by (rule run_Edit_pending)
  then have s2: "s2 = s\<lparr> content := last (c # cs), saveTimeout := Some (nextTimer s),
        timers := timers s @ [?w], nextTimer := Suc (nextTimer s) \<rparr>"
    by (simp add: s1)
  have armed: "find (\<lambda>t. tid t = nextTimer s) (timers s2) = Some ?w"
    using fresh by (simp add: s2 freshTimers_def find_fresh)
  have s3: "step s2 (Fire (nextTimer s)) = performSave (clearTimer (nextTimer s) s2)"
    using armed by (rule step_Fire_save) simp_all
  have r2: "run s (Edit c # map Edit cs) = s2"
    by (simp add: run_def s2_def s1_def)
  have r3: "run s (Edit c # map Edit cs @ [Fire (nextTimer s)]) = step s2 (Fire (nextTimer s))"
    by (simp add: run_def s2_def s1_def)
  have spent: "filter (\<lambda>t. tid t \<noteq> nextTimer s) (timers s @ [?w]) = timers s"
    using fresh by (simp add: freshTimers_def filter_fresh)
  show ?thesis
    unfolding r3 s3 r2 using spent
    by (simp add: s2 performSave_def await_def clearTimer_def)
qed

theorem throttle_coalescing_witness:
  "mounted saved \<and> saveTimeout saved = None \<and> \<not> isTimeTravel saved \<and> ''a'' \<noteq> content saved
   \<and> freshTimers saved
   \<and> calls (run saved [Edit ''a'', Edit ''ab'', Edit ''abc'', Edit ''abcd'', Fire 2]) =
       calls saved @ [CreatePatch ''doc'' ''abcd'']
   \<and> timers (run saved [Edit ''a'', Edit ''ab'', Edit ''abc'', Edit ''abcd'']) =
       [Timer 2 SaveWindow 500 False]"
proof -
  have h: "mounted saved" "saveTimeout saved = None" "\<not> isTimeTravel saved" "''a'' \<noteq> content saved"
    "freshTimers saved"
    by (simp_all add: saved_eq freshTimers_def)
  show ?thesis
    using h throttle_coalescing [OF h, of "[''ab'', ''abc'', ''abcd'']"]
    by (simp add: saved_eq SAVE_THROTTLE_MS_def)
qed

subsection \<open>A rejected \<^verbatim>\<open>createPatch\<close>\<close>




text \<open>The refresh itself is not guarded: when \<^verbatim>\<open>getPatchTimestamps\<close> or
  \<^verbatim>\<open>getDocumentStats\<close> rejects, \<^verbatim>\<open>performSave\<close> ends there and \<^verbatim>\<open>saveTimeout\<close> keeps its
  handle.\<close>

lemma refresh_rejection_keeps_window:
  assumes "map_of (inflight s) r = Some SaveTimestamps \<or> map_of (inflight s) r = Some SaveStats"
  shows "step s (Settle r Rejected) = settled r s"
    and "saveTimeout (step s (Settle r Rejected)) = saveTimeout s"
  using assms by (auto simp add: step_def react_def settle_def settled_def)

subsection \<open>Time travel and the index\<close>

text \<open>
  C3, as stated, fails at its last step. On the five-version document: after the jump to
  version 2 and a save that completes during time travel, the index is 2 and the
  timeline has six entries; \<open>exitTimeTravel\<close> then turns time travel off, but the index
  is still 2, not 5.
\<close>

theorem exit_keeps_index_counterexample:
  "isTimeTravel travelled \<and> timeTravelIndex travelled = 2
   \<and> length (timestamps travelled) = 6
   \<and> \<not> isTimeTravel (step travelled ExitClick)
   \<and> timeTravelIndex (step travelled ExitClick) = 2
   \<and> int (length (timestamps (step travelled ExitClick))) - 1 = 5
   \<and> timeTravelIndex (step travelled ExitClick)
       \<noteq> int (length (timestamps (step travelled ExitClick))) - 1"
  by (simp add: travelled_eq step_def react_def exitTimeTravel_def contentEffect_def
      handleContentChange_def setTimeout_def)

text \<open>
  C3, amended. A jump to an index in range turns time travel on and sets the index.
  While time travel is on, no step of a save (the settling of \<^verbatim>\<open>createPatch\<close>, of the
  timestamps, which replace the timeline, or of the statistics) moves the index or turns
  time travel off. \<open>exitTimeTravel\<close> turns it off, empties the time-travel content and
  shows the mode selected before, and leaves the index where it is. The index moves to
  the last position when the refresh of a save completes outside time travel.
\<close>

theorem time_travel_pins_index:
  "(0 \<le> i \<and> i < int (length (timestamps s)) \<longrightarrow>
      isTimeTravel (step s (JumpClick i)) \<and> timeTravelIndex (step s (JumpClick i)) = i
      \<and> view (step s (JumpClick i)) = TimeTravelView)
   \<and> (isTimeTravel s \<and> map_of (inflight s) r = Some SaveCreate \<longrightarrow>
      timeTravelIndex (step s (Settle r out)) = timeTravelIndex s
      \<and> isTimeTravel (step s (Settle r out)))
   \<and> (isTimeTravel s \<and> map_of (inflight s) r = Some SaveTimestamps \<longrightarrow>
      timestamps (step s (Settle r (Timestamps ts))) = ts
      \<and> timeTravelIndex (step s (Settle r (Timestamps ts))) = timeTravelIndex s
      \<and> isTimeTravel (step s (Settle r (Timestamps ts))))
   \<and> (isTimeTravel s \<and> map_of (inflight s) r = Some SaveStats \<longrightarrow>
      timeTravelIndex (step s (Settle r (Stats st))) = timeTravelIndex s
      \<and> isTimeTravel (step s (Settle r (Stats st))))
   \<and> \<not> isTimeTravel (step s ExitClick)
   \<and> timeTravelContent (step s ExitClick) = []
   \<and> timeTravelIndex (step s ExitClick) = timeTravelIndex s
   \<and> view (step s ExitClick) = (if mode s = Write then WriteView else PreviewView)
   \<and> (\<not> isTimeTravel s \<and> map_of (inflight s) r = Some SaveStats \<longrightarrow>
      timeTravelIndex (step s (Settle r (Stats st))) = int (length (timestamps s)) - 1)"
proof -
  have jump: "0 \<le> i \<and> i < int (length (timestamps s)) \<longrightarrow>
      isTimeTravel (step s (JumpClick i)) \<and> timeTravelIndex (step s (JumpClick i)) = i
      \<and> view (step s (JumpClick i)) = TimeTravelView"
    by (simp add: step_def react_def contentEffect_def jumpToVersion_def
        handleTimeTravelChange_def await_def view_def Let_def)
  have create: "isTimeTravel s \<and> map_of (inflight s) r = Some SaveCreate \<longrightarrow>
      timeTravelIndex (step s (Settle r out)) = timeTravelIndex s
      \<and> isTimeTravel (step s (Settle r out))"
    by (simp add: step_Settle_create performSave_afterCreate_def await_def settled_def)
  have stamps: "isTimeTravel s \<and> map_of (inflight s) r = Some SaveTimestamps \<longrightarrow>
      timestamps (step s (Settle r (Timestamps ts))) = ts
      \<and> timeTravelIndex (step s (Settle r (Timestamps ts))) = timeTravelIndex s
      \<and> isTimeTravel (step s (Settle r (Timestamps ts)))"
    by (simp add: step_Settle_timestamps performSave_afterTimestamps_def await_def
        settled_def)
  have stat: "isTimeTravel s \<and> map_of (inflight s) r = Some SaveStats \<longrightarrow>
      timeTravelIndex (step s (Settle r (Stats st))) = timeTravelIndex s
      \<and> isTimeTravel (step s (Settle r (Stats st)))"
    by (simp add: step_Settle_stats performSave_afterStats_def settled_def)
  have leave: "\<not> isTimeTravel (step s ExitClick)
      \<and> timeTravelContent (step s ExitClick) = []
      \<and> timeTravelIndex (step s ExitClick) = timeTravelIndex s
      \<and> view (step s ExitClick) = (if mode s = Write then WriteView else PreviewView)"
    by (simp add: step_def react_def exitTimeTravel_def contentEffect_def
        handleContentChange_def setTimeout_def view_def Let_def)
  have follow: "\<not> isTimeTravel s \<and> map_of (inflight s) r = Some SaveStats \<longrightarrow>
      timeTravelIndex (step s (Settle r (Stats st))) = int (length (timestamps s)) - 1"
    by (simp add: step_Settle_stats performSave_afterStats_def settled_def)
  from jump create stamps stat leave follow show ?thesis
    by blast
qed

theorem time_travel_pins_index_witness:
  "(0::int) \<le> 2 \<and> 2 < int (length (timestamps opened))
   \<and> isTimeTravel (step opened (JumpClick 2))
   \<and> timeTravelIndex (step opened (JumpClick 2)) = 2
   \<and> view (step opened (JumpClick 2)) = TimeTravelView
   \<and> isTimeTravel travelling \<and> map_of (inflight travelling) 4 = Some SaveCreate
   \<and> timeTravelIndex (step travelling (Settle 4 (Str ''patch''))) = 2
   \<and> \<not> isTimeTravel (step travelled ExitClick)
   \<and> timeTravelIndex (step travelled ExitClick) = 2
   \<and> view (step travelled ExitClick) = WriteView
   \<and> \<not> isTimeTravel (run saving [Settle 3 (Str ''patch''), Settle 4 (Timestamps [10, 20, 30, 40, 50, 60])])
   \<and> map_of (inflight (run saving [Settle 3 (Str ''patch''),
          Settle 4 (Timestamps [10, 20, 30, 40, 50, 60])])) 5 = Some SaveStats
   \<and> timeTravelIndex (step (run saving [Settle 3 (Str ''patch''),
          Settle 4 (Timestamps [10, 20, 30, 40, 50, 60])]) (Settle 5 (Stats (statsOf 6)))) = 5"
proof -
  define p where
    "p = run saving [Settle 3 (Str ''patch''), Settle 4 (Timestamps [10, 20, 30, 40, 50, 60])]"
  have p: "\<not> isTimeTravel p" "map_of (inflight p) 5 = Some SaveStats"
    "timestamps p = [10, 20, 30, 40, 50, 60]"
    by (simp_all add: p_def saving_eq run_def step_def react_def settle_def settled_def
        performSave_afterCreate_def performSave_afterTimestamps_def await_def)
  have j: "isTimeTravel (step opened (JumpClick 2))
      \<and> timeTravelIndex (step opened (JumpClick 2)) = 2
      \<and> view (step opened (JumpClick 2)) = TimeTravelView"
    using time_travel_pins_index [of 2 opened 3 Rejected "[]" "statsOf 5"]
    by (simp add: opened_eq)
  have c: "timeTravelIndex (step travelling (Settle 4 (Str ''patch''))) = 2"
    using time_travel_pins_index [of 2 travelling 4 "Str ''patch''" "[]" "statsOf 5"]
    by (simp add: travelling_eq)
  have e: "\<not> isTimeTravel (step travelled ExitClick)
      \<and> timeTravelIndex (step travelled ExitClick) = 2
      \<and> view (step travelled ExitClick) = WriteView"
    using time_travel_pins_index [of 2 travelled 3 Rejected "[]" "statsOf 5"]
    by (simp add: travelled_eq)
  have f: "timeTravelIndex (step p (Settle 5 (Stats (statsOf 6)))) = 5"
    using time_travel_pins_index [of 2 p 5 Rejected "[]" "statsOf 6"] p
    by simp
  show ?thesis
    using j c e f p(1,2) unfolding p_def
    by (simp add: opened_eq travelling_eq)
qed

text \<open>Turning time travel off re-runs the edit effect, which opens a save window if none
  is pending; the refresh of that save is what moves the index.\<close>

lemma exit_opens_window:
  assumes "mounted s" and "isTimeTravel s" and "saveTimeout s = None"
  shows "saveTimeout (step s ExitClick) = Some (nextTimer s)"
  using assms
  by (simp add: step_def react_def exitTimeTravel_def contentEffect_def
      handleContentChange_def setTimeout_def)

subsection \<open>Results of reconstruction requests\<close>

text \<open>
  C1, as stated, fails: the component keeps no sequence number and applies every result
  when it arrives. On the five-version document the slider issues a request for
  version 0 and then one for version 1; the second result arrives first and the first
  one after it. The page then shows the content of the first request, while the rule of
  the specification shows that of the second, which was issued last.
\<close>

theorem stale_result_shown_counterexample:
  "inflight (run opened [SliderChange 0, SliderChange 1]) = [(3, TravelLoad), (4, TravelLoad)]
   \<and> timeTravelIndex
       (run opened [SliderChange 0, SliderChange 1, Settle 4 (Str ''second''),
          Settle 3 (Str ''first'')]) = 1
   \<and> timeTravelContent
       (run opened [SliderChange 0, SliderChange 1, Settle 4 (Str ''second''),
          Settle 3 (Str ''first'')]) = ''first''
   \<and> spec_displayed [(4, ''second''), (3, ''first'')] = Some ''second''
   \<and> Some (timeTravelContent
         (run opened [SliderChange 0, SliderChange 1, Settle 4 (Str ''second''),
            Settle 3 (Str ''first'')]))
       \<noteq> spec_displayed [(4, ''second''), (3, ''first'')]"
  by (simp add: opened_eq run_def step_def react_def handleTimeTravelChange_def
      timestamp_at_def contentEffect_def settle_def settled_def
      handleTimeTravelChange_afterLoad_def await_def spec_displayed_def)

text \<open>
  C1, amended. A request is issued without a sequence number: \<open>handleTimeTravelChange\<close>
  sets the index, turns time travel on and puts one call in the pool. When a pending
  request fulfils, its result becomes the time-travel content, whatever was issued or
  applied before; a request that rejects changes nothing. So the content shown is the
  result of the request that completed last.
\<close>

theorem last_completion_shown:
  assumes "map_of (inflight s) r = Some TravelLoad"
  shows "step s (Settle r (Str c)) = (settled r s)\<lparr> timeTravelContent := c \<rparr>
    \<and> timeTravelContent (step s (Settle r (Str c))) = c
    \<and> step s (Settle r Rejected) = settled r s
    \<and> timeTravelContent (step s (Settle r Rejected)) = timeTravelContent s
    \<and> step s (SliderChange v) =
        s\<lparr> timeTravelIndex := v, isTimeTravel := True,
           calls := calls s @ [LoadDocumentAtTimestamp (docUuid s) (timestamp_at (timestamps s) v)],
           inflight := inflight s @ [(nextReq s, TravelLoad)],
           nextReq := Suc (nextReq s) \<rparr>"
  using assms
  by (simp add: step_def react_def settle_def settled_def contentEffect_def
      handleTimeTravelChange_afterLoad_def handleTimeTravelChange_def await_def Let_def)

theorem last_completion_shown_witness:
  "map_of (inflight (run opened [SliderChange 0, SliderChange 1, Settle 4 (Str ''second'')])) 3
     = Some TravelLoad
   \<and> timeTravelContent
       (step (run opened [SliderChange 0, SliderChange 1, Settle 4 (Str ''second'')])
          (Settle 3 (Str ''first''))) = ''first''
   \<and> timeTravelContent
       (step (run opened [SliderChange 0, SliderChange 1, Settle 4 (Str ''second'')])
          (Settle 3 Rejected)) = ''second''"
proof -
  define q where "q = run opened [SliderChange 0, SliderChange 1, Settle 4 (Str ''second'')]"
  have q: "map_of (inflight q) 3 = Some TravelLoad" "timeTravelContent q = ''second''"
    by (simp_all add: q_def opened_eq run_def step_def react_def handleTimeTravelChange_def
        timestamp_at_def contentEffect_def settle_def settled_def
        handleTimeTravelChange_afterLoad_def await_def)
  note t = last_completion_shown [OF q(1), of "''first''" 0]
  have a: "timeTravelContent (step q (Settle 3 (Str ''first''))) = ''first''"
    using t [THEN conjunct2, THEN conjunct1] .
  have b: "timeTravelContent (step q (Settle 3 Rejected)) = ''second''"
    using t [THEN conjunct2, THEN conjunct2, THEN conjunct2, THEN conjunct1] q(2) by simp
  show ?thesis
    using q(1) a b unfolding q_def by simp
qed

subsection \<open>The phases of key repeat\<close>

text \<open>
  C4, as stated, fails where it says that no further step occurs while the key is held
  and the delay timer has not fired. A held key makes the browser deliver further
  key-down events, which \<open>handleKeyDown\<close> does not tell from the first (it does not read
  \<^verbatim>\<open>e.repeat\<close>). On the five-version document with the popover open, two key-downs of the
  left arrow, with no timer fired between or after them, move the index from 4 to 3 and
  then to 2 and issue two requests.
\<close>

theorem auto_repeat_steps_counterexample:
  "timeTravelIndex browsing = 4
   \<and> timeTravelIndex (run browsing [KeyDown ''ArrowLeft'']) = 3
   \<and> timeTravelIndex (run browsing [KeyDown ''ArrowLeft'', KeyDown ''ArrowLeft'']) = 2
   \<and> calls (run browsing [KeyDown ''ArrowLeft'', KeyDown ''ArrowLeft'']) =
       calls browsing @ [LoadDocumentAtTimestamp ''doc'' (At 40),
                         LoadDocumentAtTimestamp ''doc'' (At 30)]
   \<and> timers (run browsing [KeyDown ''ArrowLeft'', KeyDown ''ArrowLeft'']) =
       [Timer 1 SaveWindow 500 False, Timer 3 (HoldDelay (- 1)) 300 False]"
  by (simp add: browsing_eq run_def step_def react_def handleKeyDown_def isArrow_def
      direction_def clearKeyHold_def clearTimer_def stepVersion_def jumpToVersion_def
      handleTimeTravelChange_def timestamp_at_def await_def setTimeout_def
      contentEffect_def)

text \<open>
  C4, amended. In a state the component can reach (\<open>holdOk\<close>), with the popover open and
  the listeners attached, a key-down of the left arrow (\<open>d = -1\<close>) or of the right arrow
  (\<open>d = 1\<close>) performs one \<open>stepVersion d\<close> at once: the index moves by \<open>d\<close> if that stays
  inside the timeline and stays where it is otherwise. It leaves exactly one key-repeat
  timer armed, the timeout of 300 ms. As long as no further key-down is delivered: until
  that timeout fires no other timer moves the index; when it fires, no step is made and
  exactly one key-repeat timer is armed, the interval of 50 ms; every tick of the interval
  is one more \<open>stepVersion d\<close>, any number of times. A further arrow key-down, in the delay
  or after any number of ticks, performs one more step at once, in its own direction, and
  leaves only a new timeout of 300 ms. A key-up of either arrow, in the delay or after any
  number of ticks, leaves no key-repeat timer armed, and the handle that was armed does
  nothing when it fires afterwards.
\<close>

theorem key_repeat_phases:
  assumes ok: "holdOk s" and on: "listening s" "isPopoverOpen s"
    and key: "(k = ''ArrowLeft'' \<and> d = - 1) \<or> (k = ''ArrowRight'' \<and> d = 1)"
    and again: "(k2 = ''ArrowLeft'' \<and> d2 = - 1) \<or> (k2 = ''ArrowRight'' \<and> d2 = 1)"
    and up: "k' = ''ArrowLeft'' \<or> k' = ''ArrowRight''"
  shows "nav (step s (KeyDown k)) = nav (stepVersion d s)
    \<and> timeTravelIndex (step s (KeyDown k)) =
        (if 0 \<le> timeTravelIndex s + d \<and> timeTravelIndex s + d < int (length (timestamps s))
         then timeTravelIndex s + d else timeTravelIndex s)
    \<and> holdTimers (step s (KeyDown k)) = [Timer (nextTimer s) (HoldDelay d) 300 False]
    \<and> (h \<noteq> nextTimer s \<longrightarrow>
        timeTravelIndex (run s [KeyDown k, Fire h]) = timeTravelIndex (step s (KeyDown k)))
    \<and> nav (run s [KeyDown k, Fire (nextTimer s)]) = nav (step s (KeyDown k))
    \<and> holdTimers (run s [KeyDown k, Fire (nextTimer s)]) =
        [Timer (Suc (nextTimer s)) (HoldRepeat d) 50 True]
    \<and> run s ([KeyDown k, Fire (nextTimer s)] @ replicate m (Fire (Suc (nextTimer s)))) =
        (stepVersion d ^^ m) (run s [KeyDown k, Fire (nextTimer s)])
    \<and> nav (run s [KeyDown k, KeyDown k2]) = nav (stepVersion d2 (step s (KeyDown k)))
    \<and> holdTimers (run s [KeyDown k, KeyDown k2]) =
        [Timer (Suc (nextTimer s)) (HoldDelay d2) 300 False]
    \<and> nav (run s ([KeyDown k, Fire (nextTimer s)] @ replicate m (Fire (Suc (nextTimer s)))
          @ [KeyDown k2])) =
        nav (stepVersion d2
          (run s ([KeyDown k, Fire (nextTimer s)] @ replicate m (Fire (Suc (nextTimer s))))))
    \<and> holdTimers (run s ([KeyDown k, Fire (nextTimer s)]
          @ replicate m (Fire (Suc (nextTimer s))) @ [KeyDown k2])) =
        [Timer (Suc (Suc (nextTimer s))) (HoldDelay d2) 300 False]
    \<and> holdTimers (run s [KeyDown k, KeyUp k']) = []
    \<and> run s [KeyDown k, KeyUp k', Fire (nextTimer s)] = run s [KeyDown k, KeyUp k']
    \<and> holdTimers (run s ([KeyDown k, Fire (nextTimer s)]
          @ replicate m (Fire (Suc (nextTimer s))) @ [KeyUp k'])) = []
    \<and> run s ([KeyDown k, Fire (nextTimer s)] @ replicate m (Fire (Suc (nextTimer s)))
          @ [KeyUp k', Fire (Suc (nextTimer s))]) =
        run s ([KeyDown k, Fire (nextTimer s)] @ replicate m (Fire (Suc (nextTimer s)))
          @ [KeyUp k'])"
proof -
  let ?n = "nextTimer s"
  have keys: "isArrow k" "isArrow k2" "isArrow k'"
    using key again up by (auto simp add: isArrow_def)
  have dir: "direction k = d" "direction k2 = d2"
    using key again by (auto simp add: direction_def)
  define s1 where "s1 = step s (KeyDown k)"
  define s2 where "s2 = step s1 (Fire ?n)"
  define sm where "sm = (stepVersion d ^^ m) s2"
  have e1: "s1 = handleKeyDown k s"
    unfolding s1_def using on(1) by (rule step_KeyDown)
  have armed: "holdTimers s1 = [Timer ?n (HoldDelay d) 300 False]"
    and n1: "nextTimer s1 = Suc ?n"
    using handleKeyDown_armed [OF ok on(2) keys(1)] by (simp_all add: e1 dir)
  have ok1: "holdOk s1"
    unfolding e1 using ok by (rule holdOk_handleKeyDown)
  have l1: "listening s1" and p1: "isPopoverOpen s1"
    using on handleKeyDown_keeps [of k s] by (simp_all add: e1)
  have nav1: "nav s1 = nav (stepVersion d s)"
    using nav_handleKeyDown [OF on(2) keys(1)] by (simp add: e1 dir)
  have "timeTravelIndex (stepVersion d s) =
      (if 0 \<le> timeTravelIndex s + d \<and> timeTravelIndex s + d < int (length (timestamps s))
       then timeTravelIndex s + d else timeTravelIndex s)"
    by (simp add: stepVersion_def jumpToVersion_def handleTimeTravelChange_def await_def
        Let_def)
  then have idx: "timeTravelIndex s1 =
      (if 0 \<le> timeTravelIndex s + d \<and> timeTravelIndex s + d < int (length (timestamps s))
       then timeTravelIndex s + d else timeTravelIndex s)"
    using nav1 by (simp add: nav_def)
  have other: "h \<noteq> ?n \<longrightarrow> timeTravelIndex (step s1 (Fire h)) = timeTravelIndex s1"
    using fire_other [OF ok1 armed, of h] by simp
  have e2: "s2 = fire ?n s1"
    unfolding s2_def using ok1 armed by (rule step_Fire_delay)
  have nav2: "nav s2 = nav s1"
    by (simp add: e2 fire_delay(1) [OF ok1 armed] nav_def)
  have rep: "holdTimers s2 = [Timer (Suc ?n) (HoldRepeat d) 50 True]"
    using fire_delay(2) [OF ok1 armed] by (simp add: e2 n1)
  have ok2: "holdOk s2"
    unfolding s2_def using ok1 by (rule holdOk_step)
  have l2: "listening s2" and p2: "isPopoverOpen s2" and n2: "nextTimer s2 = Suc (Suc ?n)"
    using l1 p1 n1 by (simp_all add: e2 fire_delay(1) [OF ok1 armed])
  have ticks: "run s2 (replicate m (Fire (Suc ?n))) = sm"
    unfolding sm_def using ok2 rep by (rule run_repeat)
  have okm: "holdOk sm" and repm: "holdTimers sm = [Timer (Suc ?n) (HoldRepeat d) 50 True]"
    and lm: "listening sm" and pm: "isPopoverOpen sm" and nm: "nextTimer sm = Suc (Suc ?n)"
    using ok2 rep l2 p2 n2 funpow_stepVersion [where d = d and m = m and s = s2]
    by (simp_all add: sm_def)
  have down1: "nav (step s1 (KeyDown k2)) = nav (stepVersion d2 s1)"
    "holdTimers (step s1 (KeyDown k2)) = [Timer (Suc ?n) (HoldDelay d2) 300 False]"
    using nav_handleKeyDown [OF p1 keys(2)] handleKeyDown_armed [OF ok1 p1 keys(2)]
    by (simp_all add: step_KeyDown [OF l1] dir n1)
  have downm: "nav (step sm (KeyDown k2)) = nav (stepVersion d2 sm)"
    "holdTimers (step sm (KeyDown k2)) = [Timer (Suc (Suc ?n)) (HoldDelay d2) 300 False]"
    using nav_handleKeyDown [OF pm keys(2)] handleKeyDown_armed [OF okm pm keys(2)]
    by (simp_all add: step_KeyDown [OF lm] dir nm)
  have up1: "holdTimers (step s1 (KeyUp k')) = []"
    using ok1 l1 keys(3) by (rule keyUp_silences(1))
  have dead1: "step (step s1 (KeyUp k')) (Fire ?n) = step s1 (KeyUp k')"
    using keyUp_silences(4) [OF ok1 l1 keys(3) armed] by simp
  have upm: "holdTimers (step sm (KeyUp k')) = []"
    using okm lm keys(3) by (rule keyUp_silences(1))
  have deadm: "step (step sm (KeyUp k')) (Fire (Suc ?n)) = step sm (KeyUp k')"
    using keyUp_silences(4) [OF okm lm keys(3) repm] by simp
  have pre: "run s (KeyDown k # Fire ?n # es) = run s2 es" for es
    by (simp add: run_Cons s2_def s1_def)
  have r2: "run s [KeyDown k, Fire ?n] = s2"
    by (simp add: pre run_Nil)
  have rm: "run s ([KeyDown k, Fire ?n] @ replicate m (Fire (Suc ?n))) = sm"
    by (simp add: pre ticks)
  have after: "run s ([KeyDown k, Fire ?n] @ replicate m (Fire (Suc ?n)) @ es) = run sm es"
    for es
  proof -
    have "run s ([KeyDown k, Fire ?n] @ replicate m (Fire (Suc ?n)) @ es)
        = run s2 (replicate m (Fire (Suc ?n)) @ es)"
      by (simp add: pre)
    also have "\<dots> = run sm es"
      by (simp add: run_append ticks)
    finally show ?thesis .
  qed
  have one: "run t [e] = step t e" and two: "run t [e, f] = step (step t e) f"
    and three: "run t [e, f, g] = step (step (step t e) f) g" for t e f g
    by (simp_all add: run_def)
  show ?thesis
    unfolding after rm r2 one two three
    using nav1 idx armed other nav2 rep down1 downm up1 dead1 upm deadm
    by (simp add: s1_def [symmetric] s2_def [symmetric] sm_def)
qed

theorem key_repeat_phases_witness:
  "holdOk browsing \<and> listening browsing \<and> isPopoverOpen browsing
   \<and> timeTravelIndex browsing = 4
   \<and> timeTravelIndex (step browsing (KeyDown ''ArrowLeft'')) = 3
   \<and> holdTimers (step browsing (KeyDown ''ArrowLeft'')) = [Timer 2 (HoldDelay (- 1)) 300 False]
   \<and> holdTimers (run browsing [KeyDown ''ArrowLeft'', Fire 2]) =
       [Timer 3 (HoldRepeat (- 1)) 50 True]
   \<and> holdTimers (run browsing [KeyDown ''ArrowLeft'', KeyDown ''ArrowRight'']) =
       [Timer 3 (HoldDelay 1) 300 False]
   \<and> holdTimers (run browsing [KeyDown ''ArrowLeft'', KeyUp ''ArrowRight'']) = []
   \<and> holdOk rewound \<and> listening rewound \<and> isPopoverOpen rewound
   \<and> timeTravelIndex rewound = 1
   \<and> timeTravelIndex (step rewound (KeyDown ''ArrowRight'')) = 2
   \<and> holdTimers (step rewound (KeyDown ''ArrowRight'')) = [Timer 4 (HoldDelay 1) 300 False]
   \<and> holdTimers (run rewound [KeyDown ''ArrowRight'', Fire 4]) =
       [Timer 5 (HoldRepeat 1) 50 True]
   \<and> timeTravelIndex (run rewound [KeyDown ''ArrowRight'', Fire 4, Fire 5, Fire 5]) = 4
   \<and> holdTimers (run rewound [KeyDown ''ArrowRight'', Fire 4, Fire 5, Fire 5,
         KeyUp ''ArrowLeft'']) = []"
proof -
  have b: "holdOk browsing" "listening browsing" "isPopoverOpen browsing"
    "timeTravelIndex browsing = 4" "nextTimer browsing = 2"
    "timestamps browsing = [10, 20, 30, 40, 50]"
    using holdOk_browsing by (simp_all add: browsing_eq)
  have r: "holdOk rewound" "listening rewound" "isPopoverOpen rewound"
    "timeTravelIndex rewound = 1" "nextTimer rewound = 4"
    "timestamps rewound = [10, 20, 30, 40, 50]"
    using holdOk_rewound by (simp_all add: rewound_eq)
  note tl = key_repeat_phases [where s = browsing and k = "''ArrowLeft''" and d = "- 1"
      and ?k2.0 = "''ArrowRight''" and ?d2.0 = 1 and k' = "''ArrowRight''" and h = 0
      and m = "Suc (Suc 0)", OF b(1-3)]
  note tr = key_repeat_phases [where s = rewound and k = "''ArrowRight''" and d = 1
      and ?k2.0 = "''ArrowLeft''" and ?d2.0 = "- 1" and k' = "''ArrowLeft''" and h = 0
      and m = "Suc (Suc 0)", OF r(1-3)]
  have l1: "timeTravelIndex (step browsing (KeyDown ''ArrowLeft'')) = 3"
    and l2: "holdTimers (step browsing (KeyDown ''ArrowLeft'')) =
      [Timer 2 (HoldDelay (- 1)) 300 False]"
    and l3: "holdTimers (run browsing [KeyDown ''ArrowLeft'', Fire 2]) =
      [Timer 3 (HoldRepeat (- 1)) 50 True]"
    and l4: "holdTimers (run browsing [KeyDown ''ArrowLeft'', KeyDown ''ArrowRight'']) =
      [Timer 3 (HoldDelay 1) 300 False]"
    and l5: "holdTimers (run browsing [KeyDown ''ArrowLeft'', KeyUp ''ArrowRight'']) = []"
    using tl by (simp_all add: b)
  have r1: "timeTravelIndex (step rewound (KeyDown ''ArrowRight'')) = 2"
    and r2: "holdTimers (step rewound (KeyDown ''ArrowRight'')) =
      [Timer 4 (HoldDelay 1) 300 False]"
    and r3: "holdTimers (run rewound [KeyDown ''ArrowRight'', Fire 4]) =
      [Timer 5 (HoldRepeat 1) 50 True]"
    and r5: "holdTimers (run rewound [KeyDown ''ArrowRight'', Fire 4, Fire 5, Fire 5,
         KeyUp ''ArrowLeft'']) = []"
    and r6: "run rewound [KeyDown ''ArrowRight'', Fire 4, Fire 5, Fire 5] =
      stepVersion 1 (stepVersion 1 (run rewound [KeyDown ''ArrowRight'', Fire 4]))"
    using tr by (simp_all add: r)
  define x where "x = run rewound [KeyDown ''ArrowRight'', Fire 4]"
  have x: "timeTravelIndex x = 2" "timestamps x = [10, 20, 30, 40, 50]"
    by (simp_all add: x_def rewound_eq run_def step_def react_def handleKeyDown_def
        isArrow_def direction_def clearKeyHold_def stepVersion_def jumpToVersion_def
        handleTimeTravelChange_def timestamp_at_def await_def setTimeout_def
        setInterval_def contentEffect_def fire_def clearTimer_def)
  have sv: "timeTravelIndex (stepVersion e t) =
      (if 0 \<le> timeTravelIndex t + e \<and> timeTravelIndex t + e < int (length (timestamps t))
       then timeTravelIndex t + e else timeTravelIndex t)"
    "timestamps (stepVersion e t) = timestamps t" for e t
    by (simp_all add: stepVersion_def jumpToVersion_def handleTimeTravelChange_def
        await_def Let_def)
  have r4: "timeTravelIndex (run rewound [KeyDown ''ArrowRight'', Fire 4, Fire 5, Fire 5]) = 4"
    unfolding r6 x_def [symmetric] by (simp add: sv x)
  show ?thesis
    using b(1-4) r(1-4) l1 l2 l3 l4 l5 r1 r2 r3 r4 r5 by simp
qed

subsection \<open>Key-repeat timers never stack\<close>

text \<open>
  C10. After any sequence of events from the initial state, at most one delay timeout and
  at most one repetition interval are armed (at most one key-repeat timer in all). An
  arrow key-down with the popover open leaves exactly the delay timeout it arms, whatever
  was armed before; closing the popover and destroying the component leave no key-repeat
  timer armed.
\<close>

theorem key_repeat_timers_never_stack:
  "holdOk (run (init doc) es)
   \<and> length (delayTimers (run (init doc) es)) \<le> 1
   \<and> length (repeatTimers (run (init doc) es)) \<le> 1
   \<and> length (holdTimers (run (init doc) es)) \<le> 1
   \<and> (listening (run (init doc) es) \<and> isPopoverOpen (run (init doc) es) \<and> isArrow k \<longrightarrow>
        holdTimers (step (run (init doc) es) (KeyDown k)) =
          [Timer (nextTimer (run (init doc) es)) (HoldDelay (direction k)) 300 False])
   \<and> (isPopoverOpen (run (init doc) es) \<longrightarrow>
        holdTimers (step (run (init doc) es) (SetPopover False)) = [])
   \<and> holdTimers (step (run (init doc) es) Destroy) = []"
proof -
  define t where "t = run (init doc) es"
  have ok: "holdOk t"
    unfolding t_def using holdOk_init by (rule holdOk_run)
  have down: "listening t \<and> isPopoverOpen t \<and> isArrow k \<longrightarrow>
      holdTimers (step t (KeyDown k)) = [Timer (nextTimer t) (HoldDelay (direction k)) 300 False]"
    using handleKeyDown_armed [OF ok, of k] by (simp add: step_KeyDown)
  have close: "isPopoverOpen t \<longrightarrow> holdTimers (step t (SetPopover False)) = []"
  proof
    assume "isPopoverOpen t"
    have "holdOk (t\<lparr> isPopoverOpen := False, listening := False \<rparr>)"
      using ok by (simp add: holdOk_frame [of t] sameKeyHold_def)
    from clearKeyHold_idle [OF this] \<open>isPopoverOpen t\<close>
    show "holdTimers (step t (SetPopover False)) = []"
      using clearKeyHold_keeps [of "t\<lparr> isPopoverOpen := False, listening := False \<rparr>"]
      by (simp add: step_def popoverEffect_def react_travel)
  qed
  have destroy: "holdTimers (step t Destroy) = []"
    using holdTimers_onDestroy [OF ok]
    by (simp add: step_def react_def onDestroy_def clearIfSet_def clearTimer_def
        holdTimers_def split: option.splits)
  show ?thesis
    using ok holdOk_lengths [OF ok] down close destroy unfolding t_def by simp
qed

theorem key_repeat_timers_never_stack_witness:
  "listening repeating \<and> isPopoverOpen repeating \<and> isArrow ''ArrowRight''
   \<and> holdTimers repeating = [Timer 3 (HoldRepeat (- 1)) 50 True]
   \<and> holdTimers (step repeating (KeyDown ''ArrowRight'')) = [Timer 4 (HoldDelay 1) 300 False]
   \<and> holdTimers (step repeating (SetPopover False)) = []
   \<and> holdTimers (step repeating Destroy) = []"
proof -
  have r: "run (init ''doc'')
      [Mount, Settle 0 (Timestamps [10, 20, 30, 40, 50]), Settle 1 (Stats (statsOf 5)),
       Settle 2 (Str ''five''), SetPopover True, KeyDown ''ArrowLeft'', Fire 2] = repeating"
    by (simp add: repeating_def browsing_def opened_def run_def)
  have h: "listening repeating" "isPopoverOpen repeating" "isArrow ''ArrowRight''"
    "nextTimer repeating = 4" "direction ''ArrowRight'' = 1"
    "holdTimers repeating = [Timer 3 (HoldRepeat (- 1)) 50 True]"
    by (simp_all add: repeating_eq isArrow_def direction_def holdTimers_def)
  note t = key_repeat_timers_never_stack
    [of "''doc''" "[Mount, Settle 0 (Timestamps [10, 20, 30, 40, 50]),
       Settle 1 (Stats (statsOf 5)), Settle 2 (Str ''five''), SetPopover True,
       KeyDown ''ArrowLeft'', Fire 2]" "''ArrowRight''", unfolded r]
  show ?thesis
    using t h by simp
qed


end
